theory Spec2Isabelle
  imports Main "HOL-Library.AList" "HOL-Library.Multiset" "HOL-Library.Word"
begin

section \<open>The blocklist poller of tempodb (tempodb/blocklist/poller.go)\<close>

text \<open>
  The poller talks to an object store through three interfaces (\<open>backend.Reader\<close>,
  \<open>backend.Writer\<close>, \<open>backend.Compactor\<close>), writes to a logger, reads the clock and
  runs goroutines. The store is shared and stateful, so an answer of the store may depend
  on everything that happened before: every operation of the model receives the history
  (the list of the events so far, oldest first) and returns the events it adds. The
  theorems hold for every answer function, that is for every behaviour of the store.
\<close>

subsection \<open>Data\<close>

type_synonym UUID = "128 word"

text \<open>
  Go's \<open>error\<close> values: the sentinel \<open>backend.ErrDoesNotExist\<close>, any other error,
  \<open>fmt.Errorf("msg: %w", err)\<close> and \<open>errors.Join(errs...)\<close>. A nil error is \<open>None\<close>.
\<close>

datatype error =
    ErrDoesNotExist
  | ErrOther string
  | ErrWrap string error
  | ErrJoin "error list"

text \<open>\<open>errors.Is\<close> follows the chain of wrapped errors and every branch of a join.\<close>

fun is_err :: "error \<Rightarrow> error \<Rightarrow> bool" where
  "is_err ErrDoesNotExist target = (ErrDoesNotExist = target)"
| "is_err (ErrOther s) target = (ErrOther s = target)"
| "is_err (ErrWrap s e) target = (ErrWrap s e = target \<or> is_err e target)"
| "is_err (ErrJoin es) target = (ErrJoin es = target \<or> list_ex (\<lambda>e. is_err e target) es)"

fun errors_Is :: "error option \<Rightarrow> error \<Rightarrow> bool" where
  "errors_Is None target = False"
| "errors_Is (Some e) target = is_err e target"

text \<open>
  \<open>backend.BlockMeta\<close> and \<open>backend.CompactedBlockMeta\<close> (a BlockMeta with the time of
  its compaction); times are nanoseconds. The poller reads \<open>BlockID\<close>, \<open>TotalObjects\<close>
  and \<open>Size_\<close> only.
\<close>

record BlockMeta =
  BlockID :: UUID
  TenantID :: string
  TotalObjects :: int
  Size_ :: nat

record CompactedBlockMeta = BlockMeta +
  CompactedTime :: int

record TenantIndex =
  CreatedAt :: int
  Meta :: "BlockMeta list"
  CompactedMeta :: "CompactedBlockMeta list"

record FindMatch =
  Key :: string
  Modified :: int

record PollerConfig =
  PollConcurrency :: nat
  TenantPollConcurrency :: nat
  PollFallback :: bool
  TenantIndexBuilders :: int
  StaleTenantIndex :: int
  PollJitterMs :: int
  TolerateConsecutiveErrors :: int
  TolerateTenantFailures :: int
  EmptyTenantDeletionAge :: int
  EmptyTenantDeletionEnabled :: bool
  SkipNoCompactBlocks :: bool

text \<open>What the poller does to the world: calls of the store and lines of the log.\<close>

datatype event =
    CallTenants
  | CallBlocks string
  | CallBlockMeta UUID string
  | CallCompactedBlockMeta UUID string
  | CallHasNoCompactFlag UUID string
  | CallTenantIndex string
  | CallFind "string list"
  | CallWriteTenantIndex string "BlockMeta list" "CompactedBlockMeta list"
  | CallDelete string "string list"
  | Logged string "string list"

type_synonym history = "event list"

text \<open>
  The interfaces, each method with the history before the call. A Go method returning
  \<open>(value, error)\<close> returns a pair here, since the poller tests both components;
  \<open>TenantIndex\<close> returns a sum, as the poller dereferences the index whenever the error
  is nil. \<open>Find\<close> returns the matches it handed to the callback and its error.
\<close>

record Reader =
  Tenants :: "history \<Rightarrow> string list \<times> error option"
  Blocks :: "history \<Rightarrow> string \<Rightarrow> UUID list \<times> UUID list \<times> error option"
  ReadBlockMeta :: "history \<Rightarrow> UUID \<Rightarrow> string \<Rightarrow> BlockMeta option \<times> error option"
  ReadTenantIndex :: "history \<Rightarrow> string \<Rightarrow> error + TenantIndex"
  HasNoCompactFlag :: "history \<Rightarrow> UUID \<Rightarrow> string \<Rightarrow> bool \<times> error option"
  Find :: "history \<Rightarrow> string list \<Rightarrow> FindMatch list \<times> error option"

record Writer =
  WriteTenantIndex ::
    "history \<Rightarrow> string \<Rightarrow> BlockMeta list \<Rightarrow> CompactedBlockMeta list \<Rightarrow> error option"
  Delete :: "history \<Rightarrow> string \<Rightarrow> string list \<Rightarrow> error option"

record Compactor =
  ReadCompactedBlockMeta ::
    "history \<Rightarrow> UUID \<Rightarrow> string \<Rightarrow> CompactedBlockMeta option \<times> error option"

record Poller =
  reader :: Reader
  writer :: Writer
  compactor :: Compactor
  cfg :: PollerConfig
  sharder :: "string \<Rightarrow> bool"

text \<open>
  The Go runtime: the clock (\<open>time.Now\<close>), the parent context's \<open>Err()\<close>, and the order
  in which a Go map is ranged over and the goroutines of \<open>pollUnknown\<close> take the mutex,
  as a priority of each key. All three may depend on the history.
\<close>

record Runtime =
  now :: "history \<Rightarrow> int"
  ctxErr :: "history \<Rightarrow> error option"
  mapOrder :: "history \<Rightarrow> UUID \<Rightarrow> nat"

text \<open>
  The previous blocklist (\<open>*List\<close>, declared in list.go): the poller calls its two
  accessors only.
\<close>

record List =
  Metas :: "string \<Rightarrow> BlockMeta list"
  CompactedMetas :: "string \<Rightarrow> CompactedBlockMeta list"

subsection \<open>pollBlock\<close>

text \<open>
  \<open>pollBlock\<close> returns \<open>(blockMeta, compactedBlockMeta, err)\<close> and the calls it made.
  The three stages follow the source: the nocompact check, the read of the live meta and
  the read of the compacted meta.
\<close>

definition pollBlock_flag ::
  "Poller \<Rightarrow> history \<Rightarrow> string \<Rightarrow> UUID \<Rightarrow> bool \<Rightarrow> (bool \<times> error option) \<times> event list" where
  "pollBlock_flag p h tenantID blockID compacted =
     (if \<not> compacted \<and> SkipNoCompactBlocks (cfg p)
      then (HasNoCompactFlag (reader p) h blockID tenantID, [CallHasNoCompactFlag blockID tenantID])
      else ((False, None), []))"

definition pollBlock_meta ::
  "Poller \<Rightarrow> history \<Rightarrow> string \<Rightarrow> UUID \<Rightarrow> bool \<Rightarrow> (BlockMeta option \<times> error option) \<times> event list" where
  "pollBlock_meta p h tenantID blockID compacted =
     (if \<not> compacted
      then (ReadBlockMeta (reader p) h blockID tenantID, [CallBlockMeta blockID tenantID])
      else ((None, None), []))"

definition pollBlock_compacted ::
  "Poller \<Rightarrow> history \<Rightarrow> string \<Rightarrow> UUID \<Rightarrow> bool \<Rightarrow> BlockMeta option \<times> error option \<Rightarrow>
   (BlockMeta option \<times> CompactedBlockMeta option \<times> error option) \<times> event list" where
  "pollBlock_compacted p h tenantID blockID compacted r =
     (case r of (blockMeta, err) \<Rightarrow>
        if errors_Is err ErrDoesNotExist \<or> compacted
        then (case ReadCompactedBlockMeta (compactor p) h blockID tenantID of
                (compactedBlockMeta, err') \<Rightarrow>
                  ((None, compactedBlockMeta, err'), [CallCompactedBlockMeta blockID tenantID]))
        else ((blockMeta, None, err), []))"

definition pollBlock ::
  "Poller \<Rightarrow> history \<Rightarrow> string \<Rightarrow> UUID \<Rightarrow> bool \<Rightarrow>
   (BlockMeta option \<times> CompactedBlockMeta option \<times> error option) \<times> event list" where
  "pollBlock p h tenantID blockID compacted =
     (case pollBlock_flag p h tenantID blockID compacted of
        ((noCompact, Some flagErr), es0) \<Rightarrow>
          ((None, None, Some (ErrWrap ''failed to check nocompact flag'' flagErr)), es0)
      | ((noCompact, None), es0) \<Rightarrow>
          if noCompact then ((None, None, None), es0)
          else (case pollBlock_meta p (h @ es0) tenantID blockID compacted of
            (r, es1) \<Rightarrow>
              (case pollBlock_compacted p (h @ es0 @ es1) tenantID blockID compacted r of
                ((blockMeta, compactedBlockMeta, err), es2) \<Rightarrow>
                  if errors_Is err ErrDoesNotExist then ((None, None, None), es0 @ es1 @ es2)
                  else if err \<noteq> None then ((None, None, err), es0 @ es1 @ es2)
                  else ((blockMeta, compactedBlockMeta, None), es0 @ es1 @ es2))))"

subsection \<open>pollUnknown\<close>

text \<open>
  \<open>pollUnknown\<close> ranges over the map of unknown block ids and starts one goroutine for
  each; a goroutine polls its block and, holding the mutex, appends to one of the three
  slices. The model runs the goroutines one after the other, in the order the runtime
  gives to the keys of the map: entry after entry, the loop first looks at \<open>errs\<close> (and
  breaks when it is not empty), then the goroutine of the entry runs to its end.
  The sleep of \<open>PollJitterMs\<close> and the metrics have no part in the result.
\<close>

type_synonym unknown_acc = "BlockMeta list \<times> CompactedBlockMeta list \<times> error list \<times> event list"

fun pollUnknown_loop ::
  "Poller \<Rightarrow> string \<Rightarrow> history \<Rightarrow> (UUID \<times> bool) list \<Rightarrow> unknown_acc \<Rightarrow> unknown_acc" where
  "pollUnknown_loop p tenantID h [] acc = acc"
| "pollUnknown_loop p tenantID h ((blockID, compacted) # rest)
      (newBlockList, newCompactedBlocklist, errs, es) =
     (if errs \<noteq> [] then (newBlockList, newCompactedBlocklist, errs, es)
      else (case pollBlock p (h @ es) tenantID blockID compacted of
         ((Some m, cm, pollBlockErr), es') \<Rightarrow>
           pollUnknown_loop p tenantID h rest
             (newBlockList @ [m], newCompactedBlocklist, errs, es @ es')
       | ((None, Some cm, pollBlockErr), es') \<Rightarrow>
           pollUnknown_loop p tenantID h rest
             (newBlockList, newCompactedBlocklist @ [cm], errs, es @ es')
       | ((None, None, Some pollBlockErr), es') \<Rightarrow>
           pollUnknown_loop p tenantID h rest
             (newBlockList, newCompactedBlocklist, errs @ [pollBlockErr], es @ es')
       | ((None, None, None), es') \<Rightarrow>
           pollUnknown_loop p tenantID h rest
             (newBlockList, newCompactedBlocklist, errs, es @ es')))"

definition pollUnknown ::
  "Poller \<Rightarrow> Runtime \<Rightarrow> history \<Rightarrow> (UUID \<times> bool) list \<Rightarrow> string \<Rightarrow>
   (error + BlockMeta list \<times> CompactedBlockMeta list) \<times> event list" where
  "pollUnknown p rt h unknownBlocks tenantID =
     (case pollUnknown_loop p tenantID h
             (sort_key (\<lambda>entry. mapOrder rt h (fst entry)) unknownBlocks) ([], [], [], []) of
        (newBlockList, newCompactedBlocklist, errs, es) \<Rightarrow>
          if errs \<noteq> [] then (Inl (ErrJoin errs), es)
          else (Inr (newBlockList, newCompactedBlocklist), es))"

subsection \<open>pollTenantBlocks\<close>

text \<open>
  The two maps \<open>mm\<close> and \<open>cm\<close> of the previous metas by block id (a later meta of the
  same id overwrites an earlier one), and the two loops over the listed ids: a known id
  carries its previous meta forward, an unknown one is put in the map \<open>unknownBlockIDs\<close>
  with \<open>false\<close> (listed as live) or \<open>true\<close> (listed as compacted). The Go map is an
  association list with one entry for each key.
\<close>

fun indexByID ::
  "'a BlockMeta_scheme list \<Rightarrow> (UUID \<rightharpoonup> 'a BlockMeta_scheme) \<Rightarrow> (UUID \<rightharpoonup> 'a BlockMeta_scheme)" where
  "indexByID [] mm = mm"
| "indexByID (i # rest) mm = indexByID rest (mm(BlockID i \<mapsto> i))"

fun splitKnown ::
  "(UUID \<rightharpoonup> 'm) \<Rightarrow> bool \<Rightarrow> UUID list \<Rightarrow> 'm list \<times> (UUID \<times> bool) list \<Rightarrow>
   'm list \<times> (UUID \<times> bool) list" where
  "splitKnown mm c [] acc = acc"
| "splitKnown mm c (blockID # rest) (newList, unknownBlockIDs) =
     (case mm blockID of
        Some v \<Rightarrow> splitKnown mm c rest (newList @ [v], unknownBlockIDs)
      | None \<Rightarrow> splitKnown mm c rest (newList, AList.update blockID c unknownBlockIDs))"

definition pollTenantBlocks_known ::
  "List \<Rightarrow> string \<Rightarrow> UUID list \<Rightarrow> UUID list \<Rightarrow>
   BlockMeta list \<times> CompactedBlockMeta list \<times> (UUID \<times> bool) list" where
  "pollTenantBlocks_known previous tenantID currentBlockIDs currentCompactedBlockIDs =
     (let mm = indexByID (Metas previous tenantID) Map.empty;
          cm = indexByID (CompactedMetas previous tenantID) Map.empty;
          (newBlockList, unknownLive) = splitKnown mm False currentBlockIDs ([], []);
          (newCompactedBlocklist, unknownBlockIDs) =
             splitKnown cm True currentCompactedBlockIDs ([], unknownLive)
      in (newBlockList, newCompactedBlocklist, unknownBlockIDs))"

definition pollTenantBlocks ::
  "Poller \<Rightarrow> Runtime \<Rightarrow> history \<Rightarrow> string \<Rightarrow> List \<Rightarrow>
   (error + BlockMeta list \<times> CompactedBlockMeta list) \<times> event list" where
  "pollTenantBlocks p rt h tenantID previous =
     (case Blocks (reader p) h tenantID of
        (currentBlockIDs, currentCompactedBlockIDs, Some err) \<Rightarrow>
          (Inl (ErrWrap ''failed listing tenant blocks'' err), [CallBlocks tenantID])
      | (currentBlockIDs, currentCompactedBlockIDs, None) \<Rightarrow>
          (case pollTenantBlocks_known previous tenantID currentBlockIDs currentCompactedBlockIDs of
             (newBlockList, newCompactedBlocklist, unknownBlockIDs) \<Rightarrow>
               (case pollUnknown p rt (h @ [CallBlocks tenantID]) unknownBlockIDs tenantID of
                  (Inl err, es) \<Rightarrow>
                    (Inl (ErrWrap ''failed reading unknown blocks'' err), CallBlocks tenantID # es)
                | (Inr (newM, newCm), es) \<Rightarrow>
                    (Inr (newBlockList @ newM, newCompactedBlocklist @ newCm),
                     CallBlocks tenantID # es))))"

subsection \<open>tenantIndexBuilder and tenantIndexPollError\<close>

text \<open>\<open>strconv.Itoa\<close>: the decimal digits of an integer.\<close>

function digits :: "nat \<Rightarrow> string" where
  "digits n = (if n < 10 then [char_of (48 + n)]
               else digits (n div 10) @ [char_of (48 + n mod 10)])"
  by pat_completeness auto
termination
  by (relation "measure (\<lambda>n. n)") auto

definition Itoa :: "int \<Rightarrow> string" where
  "Itoa i = (if i < 0 then CHR ''-'' # digits (nat (- i)) else digits (nat i))"

definition jobPrefix :: string where
  "jobPrefix = ''build-tenant-index-''"

function tenantIndexBuilder_loop :: "Poller \<Rightarrow> string \<Rightarrow> int \<Rightarrow> bool" where
  "tenantIndexBuilder_loop p tenant i =
     (if i < TenantIndexBuilders (cfg p)
      then (if sharder p (jobPrefix @ Itoa i @ ''-'' @ tenant) then True
            else tenantIndexBuilder_loop p tenant (i + 1))
      else False)"
  by pat_completeness auto
termination
  by (relation "measure (\<lambda>(p, tenant, i). nat (TenantIndexBuilders (cfg p) - i))") auto

definition tenantIndexBuilder :: "Poller \<Rightarrow> string \<Rightarrow> bool" where
  "tenantIndexBuilder p tenant = tenantIndexBuilder_loop p tenant 0"

text \<open>\<open>time.Since\<close>: a Duration, an int64 of nanoseconds that saturates.\<close>

definition time_Since :: "Runtime \<Rightarrow> history \<Rightarrow> int \<Rightarrow> int" where
  "time_Since rt h t = max (- (2 ^ 63)) (min (2 ^ 63 - 1) (now rt h - t))"

definition tenantIndexPollError ::
  "Poller \<Rightarrow> Runtime \<Rightarrow> history \<Rightarrow> error + TenantIndex \<Rightarrow> error option" where
  "tenantIndexPollError p rt h r =
     (case r of
        Inl err \<Rightarrow> Some err
      | Inr idx \<Rightarrow>
          if StaleTenantIndex (cfg p) \<noteq> 0
             \<and> time_Since rt h (CreatedAt idx) > StaleTenantIndex (cfg p)
          then Some (ErrOther ''tenant index is stale'')
          else None)"

subsection \<open>deleteTenant\<close>

text \<open>\<open>path.Split\<close>: the path up to and with its last slash, and the rest.\<close>

definition path_Split :: "string \<Rightarrow> string \<times> string" where
  "path_Split object =
     (let name = rev (takeWhile (\<lambda>c. c \<noteq> CHR ''/'') (rev object))
      in (take (length object - length name) object, name))"

text \<open>The callback of \<open>Find\<close>, once for each match, on \<open>foundObjects\<close> and \<open>recentObjects\<close>.\<close>

fun deleteTenant_walk ::
  "Poller \<Rightarrow> Runtime \<Rightarrow> history \<Rightarrow> FindMatch list \<Rightarrow> string list \<times> int \<times> event list \<Rightarrow>
   string list \<times> int \<times> event list" where
  "deleteTenant_walk p rt h [] acc = acc"
| "deleteTenant_walk p rt h (opts # rest) (foundObjects, recentObjects, es) =
     (let es' = es @ [Logged ''checking object for deletion'' [Key opts]]
      in if time_Since rt (h @ es') (Modified opts) > EmptyTenantDeletionAge (cfg p)
         then deleteTenant_walk p rt h rest (foundObjects @ [Key opts], recentObjects, es')
         else deleteTenant_walk p rt h rest (foundObjects, recentObjects + 1, es'))"

text \<open>The loop over \<open>foundObjects\<close>: the first \<open>Delete\<close> that fails ends it.\<close>

fun deleteTenant_delete ::
  "Poller \<Rightarrow> string \<Rightarrow> history \<Rightarrow> string list \<Rightarrow> event list \<Rightarrow> error option \<times> event list" where
  "deleteTenant_delete p tenantID h [] es = (None, es)"
| "deleteTenant_delete p tenantID h (object # rest) es =
     (case path_Split object of (dir, name) \<Rightarrow>
        (let es' = es @ [Logged ''deleting'' [tenantID, object]]
         in case Delete (writer p) (h @ es') name [dir] of
              Some err \<Rightarrow> (Some err, es' @ [CallDelete name [dir]])
            | None \<Rightarrow> deleteTenant_delete p tenantID h rest (es' @ [CallDelete name [dir]])))"

definition deleteTenant ::
  "Poller \<Rightarrow> Runtime \<Rightarrow> history \<Rightarrow> string \<Rightarrow> error option \<times> event list" where
  "deleteTenant p rt h tenantID =
     (if \<not> EmptyTenantDeletionEnabled (cfg p) then (None, [])
      else if EmptyTenantDeletionAge (cfg p) = 0
      then (Some (ErrOther ''empty tenant deletion age must be greater than 0''),
            [Logged ''deleting tenant'' [tenantID]])
      else
        (let es0 = [Logged ''deleting tenant'' [tenantID], CallFind [tenantID]]
         in case Find (reader p) (h @ [Logged ''deleting tenant'' [tenantID]]) [tenantID] of
           (matches, findErr) \<Rightarrow>
             (case deleteTenant_walk p rt h matches ([], 0, es0) of
                (foundObjects, recentObjects, es1) \<Rightarrow>
                  if findErr \<noteq> None then (findErr, es1)
                  else if recentObjects > 0 then (None, es1)
                  else if \<not> errors_Is
                            (case ReadTenantIndex (reader p) (h @ es1) tenantID of
                               Inl err \<Rightarrow> Some err | Inr idx \<Rightarrow> None)
                            ErrDoesNotExist
                  then (None, es1 @ [CallTenantIndex tenantID])
                  else deleteTenant_delete p tenantID h foundObjects
                         (es1 @ [CallTenantIndex tenantID]))))"

subsection \<open>pollTenantAndCreateIndex\<close>

text \<open>
  The follower's part (the source's lines under \<open>if !builder\<close>): \<open>Some\<close> of what the
  method returns there, or \<open>None\<close> when it goes on to poll the backend.
\<close>

definition pullTenantIndex ::
  "Poller \<Rightarrow> Runtime \<Rightarrow> history \<Rightarrow> string \<Rightarrow>
   (error + BlockMeta list \<times> CompactedBlockMeta list) option \<times> event list" where
  "pullTenantIndex p rt h tenantID =
     (let i = ReadTenantIndex (reader p) h tenantID
      in case (tenantIndexPollError p rt (h @ [CallTenantIndex tenantID]) i, i) of
           (None, Inr idx) \<Rightarrow>
             (Some (Inr (Meta idx, CompactedMeta idx)),
              [CallTenantIndex tenantID, Logged ''successfully pulled tenant index'' [tenantID]])
         | (None, Inl err) \<Rightarrow>
             (Some (Inl err), [CallTenantIndex tenantID])
         | (Some err, _) \<Rightarrow>
             if \<not> PollFallback (cfg p)
             then (Some (Inl (ErrWrap ''failed to pull tenant index and no fallback configured'' err)),
                   [CallTenantIndex tenantID])
             else (None,
                   [CallTenantIndex tenantID,
                    Logged ''failed to pull bucket index for tenant. falling back to polling''
                      [tenantID]]))"

text \<open>The builder's part: poll the blocks, write the index, reap an empty tenant.\<close>

definition buildTenantIndex ::
  "Poller \<Rightarrow> Runtime \<Rightarrow> history \<Rightarrow> string \<Rightarrow> List \<Rightarrow>
   (error + BlockMeta list \<times> CompactedBlockMeta list) \<times> event list" where
  "buildTenantIndex p rt h tenantID previous =
     (case pollTenantBlocks p rt h tenantID previous of
        (Inl err, es1) \<Rightarrow> (Inl (ErrWrap ''failed to poll tenant blocks'' err), es1)
      | (Inr (bl, cbl), es1) \<Rightarrow>
          (let es2 = es1 @ [Logged ''writing tenant index'' [tenantID]];
               es3 = es2 @ [CallWriteTenantIndex tenantID bl cbl]
                     @ (if WriteTenantIndex (writer p) (h @ es2) tenantID bl cbl \<noteq> None
                        then [Logged ''failed to write tenant index'' [tenantID]] else [])
           in if length bl = 0 \<and> length cbl = 0
              then (case deleteTenant p rt (h @ es3) tenantID of
                      (Some err, es4) \<Rightarrow> (Inl (ErrWrap ''failed to delete tenant'' err), es3 @ es4)
                    | (None, es4) \<Rightarrow> (Inr (bl, cbl), es3 @ es4))
              else (Inr (bl, cbl), es3)))"

definition pollTenantAndCreateIndex ::
  "Poller \<Rightarrow> Runtime \<Rightarrow> history \<Rightarrow> string \<Rightarrow> List \<Rightarrow>
   (error + BlockMeta list \<times> CompactedBlockMeta list) \<times> event list" where
  "pollTenantAndCreateIndex p rt h tenantID previous =
     (if \<not> tenantIndexBuilder p tenantID
      then (case pullTenantIndex p rt h tenantID of
              (Some r, es) \<Rightarrow> (r, es)
            | (None, es) \<Rightarrow>
                (case buildTenantIndex p rt (h @ es) tenantID previous of
                   (r, es') \<Rightarrow> (r, es @ es')))
      else buildTenantIndex p rt h tenantID previous)"

subsection \<open>Do\<close>

text \<open>
  The retry loop of a tenant's goroutine: \<open>consecutiveErrorsRemaining\<close> counts down from
  \<open>TolerateConsecutiveErrors\<close>; \<open>r\<close> is what \<open>newBlockList\<close>, \<open>newCompactedBlockList\<close> and
  \<open>err\<close> hold (two empty slices and a nil error before the first attempt).
\<close>

function Do_retry ::
  "Poller \<Rightarrow> Runtime \<Rightarrow> history \<Rightarrow> string \<Rightarrow> List \<Rightarrow> int \<Rightarrow>
   (error + BlockMeta list \<times> CompactedBlockMeta list) \<times> event list \<Rightarrow>
   (error + BlockMeta list \<times> CompactedBlockMeta list) \<times> event list" where
  "Do_retry p rt h tenantID previous consecutiveErrorsRemaining (r, es) =
     (if consecutiveErrorsRemaining \<ge> 0
      then (case pollTenantAndCreateIndex p rt (h @ es) tenantID previous of
              (Inr polled, es') \<Rightarrow> (Inr polled, es @ es')
            | (Inl err, es') \<Rightarrow>
                Do_retry p rt h tenantID previous (consecutiveErrorsRemaining - 1)
                  (Inl err, es @ es'))
      else (r, es))"
  by pat_completeness auto
termination
  by (relation "measure (\<lambda>(p, rt, h, tenantID, previous, c, r). nat (c + 1))") auto

declare Do_retry.simps [simp del]

text \<open>
  The state the goroutines share: the two maps under the mutex, the atomic int32
  \<open>tenantFailuresRemaining\<close>, and the events of the cycle so far.
\<close>

record do_state =
  blocklist :: "string \<rightharpoonup> BlockMeta list"
  compactedBlocklist :: "string \<rightharpoonup> CompactedBlockMeta list"
  tenantFailuresRemaining :: int
  emitted :: "event list"

text \<open>The conversion \<open>int32(x)\<close> and the arithmetic of an int32: two's complement.\<close>

definition int32 :: "int \<Rightarrow> int" where
  "int32 x = (x + 2 ^ 31) mod 2 ^ 32 - 2 ^ 31"

text \<open>
  The goroutine of one tenant. The model runs the goroutines of \<open>Do\<close> one after the
  other, in the order of the tenants: each has finished when the loop looks at the
  context and at \<open>tenantFailuresRemaining\<close> again. The metrics are left out.
\<close>

definition Do_func :: "Poller \<Rightarrow> Runtime \<Rightarrow> history \<Rightarrow> List \<Rightarrow> string \<Rightarrow> do_state \<Rightarrow> do_state" where
  "Do_func p rt h previous tenantID s =
     (case Do_retry p rt (h @ emitted s) tenantID previous
             (TolerateConsecutiveErrors (cfg p)) (Inr ([], []), []) of
        (Inl err, es) \<Rightarrow>
          s\<lparr>blocklist := (blocklist s)(tenantID \<mapsto> Metas previous tenantID),
            compactedBlocklist := (compactedBlocklist s)(tenantID \<mapsto> CompactedMetas previous tenantID),
            tenantFailuresRemaining := int32 (tenantFailuresRemaining s - 1),
            emitted := emitted s @ es
                       @ [Logged ''failed to poll or create index for tenant'' [tenantID]]\<rparr>
      | (Inr (newBlockList, newCompactedBlockList), es) \<Rightarrow>
          if length newBlockList > 0 \<or> length newCompactedBlockList > 0
          then s\<lparr>blocklist := (blocklist s)(tenantID \<mapsto> newBlockList),
                 compactedBlocklist := (compactedBlocklist s)(tenantID \<mapsto> newCompactedBlockList),
                 emitted := emitted s @ es\<rparr>
          else s\<lparr>emitted := emitted s @ es\<rparr>)"

datatype loop_exit = Completed | Broke | Cancelled error

fun Do_loop ::
  "Poller \<Rightarrow> Runtime \<Rightarrow> history \<Rightarrow> List \<Rightarrow> string list \<Rightarrow> do_state \<Rightarrow> loop_exit \<times> do_state" where
  "Do_loop p rt h previous [] s = (Completed, s)"
| "Do_loop p rt h previous (tenantID # rest) s =
     (case ctxErr rt (h @ emitted s) of
        Some err \<Rightarrow> (Cancelled err, s)
      | None \<Rightarrow>
          if tenantFailuresRemaining s < 0
          then (Broke, s\<lparr>emitted := emitted s
                  @ [Logged ''exiting polling loop early because too many errors'' []]\<rparr>)
          else Do_loop p rt h previous rest (Do_func p rt h previous tenantID s))"

definition Do_init :: "Poller \<Rightarrow> do_state" where
  "Do_init p =
     \<lparr>blocklist = Map.empty, compactedBlocklist = Map.empty,
      tenantFailuresRemaining = int32 (TolerateTenantFailures (cfg p)),
      emitted = [CallTenants]\<rparr>"

definition tooManyFailures :: error where
  "tooManyFailures = ErrOther ''too many tenant failures; abandoning polling cycle''"

definition Do ::
  "Poller \<Rightarrow> Runtime \<Rightarrow> history \<Rightarrow> List \<Rightarrow>
   (error + (string \<rightharpoonup> BlockMeta list) \<times> (string \<rightharpoonup> CompactedBlockMeta list)) \<times> event list" where
  "Do p rt h previous =
     (case Tenants (reader p) h of
        (tenants, Some err) \<Rightarrow> (Inl err, [CallTenants])
      | (tenants, None) \<Rightarrow>
          (case Do_loop p rt h previous tenants (Do_init p) of
             (Cancelled err, s) \<Rightarrow> (Inl err, emitted s)
           | (exit, s) \<Rightarrow>
               if tenantFailuresRemaining s < 0 then (Inl tooManyFailures, emitted s)
               else (Inr (blocklist s, compactedBlocklist s),
                     emitted s @ [Logged ''blocklist poll complete'' []])))"

section \<open>A small store, for the concrete instances\<close>

text \<open>
  Three tenants: \<open>t1\<close> lists the blocks 1 and 2 as live and 3 as compacted (1 has a
  meta, 2 has none of either kind, 3 has a compacted meta); the listing of \<open>t2\<close> fails;
  \<open>t3\<close> is empty. The instance owns every job. The previous list knows block 1 of
  \<open>t1\<close>, with an object count that the store no longer has, and a block 7 of \<open>t2\<close>.
\<close>

definition metaOf :: "UUID \<Rightarrow> BlockMeta" where
  "metaOf b = \<lparr>BlockID = b, TenantID = ''t1'', TotalObjects = 1, Size_ = 10\<rparr>"

definition compactedMetaOf :: "UUID \<Rightarrow> CompactedBlockMeta" where
  "compactedMetaOf b =
     \<lparr>BlockID = b, TenantID = ''t1'', TotalObjects = 1, Size_ = 10, CompactedTime = 5\<rparr>"

definition exCfg :: PollerConfig where
  "exCfg = \<lparr>PollConcurrency = 50, TenantPollConcurrency = 50, PollFallback = False,
     TenantIndexBuilders = 1, StaleTenantIndex = 0, PollJitterMs = 0,
     TolerateConsecutiveErrors = 1, TolerateTenantFailures = 1,
     EmptyTenantDeletionAge = 0, EmptyTenantDeletionEnabled = False,
     SkipNoCompactBlocks = False\<rparr>"

definition exReader :: Reader where
  "exReader = \<lparr>
     Tenants = (\<lambda>h. ([''t1'', ''t2'', ''t3''], None)),
     Blocks = (\<lambda>h t. if t = ''t1'' then ([1, 2], [3], None)
                     else if t = ''t2'' then ([], [], Some (ErrOther ''listing failed''))
                     else ([], [], None)),
     ReadBlockMeta = (\<lambda>h b t. if b = 1 then (Some (metaOf b), None)
                              else (None, Some ErrDoesNotExist)),
     ReadTenantIndex = (\<lambda>h t. Inl ErrDoesNotExist),
     HasNoCompactFlag = (\<lambda>h b t. (False, None)),
     Find = (\<lambda>h k. ([], None))\<rparr>"

definition exWriter :: Writer where
  "exWriter = \<lparr>WriteTenantIndex = (\<lambda>h t ms cms. None), Delete = (\<lambda>h n k. None)\<rparr>"

definition exCompactor :: Compactor where
  "exCompactor = \<lparr>ReadCompactedBlockMeta =
     (\<lambda>h b t. if b = 3 then (Some (compactedMetaOf b), None) else (None, Some ErrDoesNotExist))\<rparr>"

definition exPoller :: Poller where
  "exPoller = \<lparr>reader = exReader, writer = exWriter, compactor = exCompactor, cfg = exCfg,
     sharder = (\<lambda>job. True)\<rparr>"

definition exRuntime :: Runtime where
  "exRuntime = \<lparr>now = (\<lambda>h. 1000), ctxErr = (\<lambda>h. None), mapOrder = (\<lambda>h b. unat b)\<rparr>"

definition exPrevious :: List where
  "exPrevious = \<lparr>
     Metas = (\<lambda>t. if t = ''t1'' then [(metaOf 1)\<lparr>TotalObjects := 99\<rparr>]
                 else if t = ''t2'' then [metaOf 7] else []),
     CompactedMetas = (\<lambda>t. [])\<rparr>"

lemmas ex_defs = exPoller_def exReader_def exWriter_def exCompactor_def exCfg_def
  exRuntime_def exPrevious_def metaOf_def compactedMetaOf_def

lemmas pollBlock_defs = pollBlock_def pollBlock_flag_def pollBlock_meta_def
  pollBlock_compacted_def

lemmas model_defs = pollBlock_defs pollUnknown_def pollTenantBlocks_def
  pollTenantBlocks_known_def tenantIndexBuilder_def pollTenantAndCreateIndex_def
  buildTenantIndex_def pullTenantIndex_def tenantIndexPollError_def time_Since_def
  deleteTenant_def path_Split_def Do_def Do_func_def Do_retry.simps Do_init_def int32_def
  jobPrefix_def
  Itoa_def tooManyFailures_def

section \<open>pollBlock\<close>

text \<open>
  Claim C10. For every invocation of \<open>pollBlock\<close>, at most one of the two returned metas
  is non-nil: it never returns both a live BlockMeta and a CompactedBlockMeta, because
  the live meta is cleared before the compacted read is attempted (whenever the compacted
  meta was read, the live meta that is returned is nil).
\<close>

theorem pollBlock_at_most_one_meta:
  "pollBlock p h tenantID blockID compacted = ((blockMeta, compactedBlockMeta, err), es) \<Longrightarrow>
     (blockMeta = None \<or> compactedBlockMeta = None)
     \<and> (CallCompactedBlockMeta blockID tenantID \<in> set es \<longrightarrow> blockMeta = None)"
  by (auto simp: pollBlock_defs split: if_splits prod.splits option.splits)

theorem pollBlock_at_most_one_meta_witness:
  "pollBlock exPoller [] ''t1'' 3 True
     = ((None, Some (compactedMetaOf 3), None), [CallCompactedBlockMeta 3 ''t1''])
   \<and> pollBlock exPoller [] ''t1'' 1 False
     = ((Some (metaOf 1), None, None), [CallBlockMeta 1 ''t1''])"
proof -
  have a: "pollBlock exPoller [] ''t1'' 3 True
     = ((None, Some (compactedMetaOf 3), None), [CallCompactedBlockMeta 3 ''t1''])"
    by (simp add: pollBlock_defs ex_defs)
  have b: "pollBlock exPoller [] ''t1'' 1 False
     = ((Some (metaOf 1), None, None), [CallBlockMeta 1 ''t1''])"
    by (simp add: pollBlock_defs ex_defs)
  from pollBlock_at_most_one_meta[OF a] pollBlock_at_most_one_meta[OF b] a b
  show ?thesis by simp
qed

section \<open>tenantIndexBuilder\<close>

text \<open>
  Claim C8. When the configured number of tenant index builders is zero or negative,
  \<open>tenantIndexBuilder\<close> returns false for every tenant, so the instance takes the
  follower path: the poll of the tenant starts with the pull of the tenant index.
  Consequently, with \<open>PollFallback\<close> off and no readable tenant index (the read fails, or
  the index is stale), the poll of the tenant fails, after that one call.
\<close>

theorem tenantIndexBuilder_no_builders:
  assumes "TenantIndexBuilders (cfg p) \<le> 0"
  shows "\<not> tenantIndexBuilder p tenant
       \<and> (\<exists>es. snd (pollTenantAndCreateIndex p rt h tenant previous) = CallTenantIndex tenant # es)
       \<and> (\<not> PollFallback (cfg p)
            \<and> tenantIndexPollError p rt (h @ [CallTenantIndex tenant])
                 (ReadTenantIndex (reader p) h tenant) = Some err
          \<longrightarrow> pollTenantAndCreateIndex p rt h tenant previous
              = (Inl (ErrWrap ''failed to pull tenant index and no fallback configured'' err),
                 [CallTenantIndex tenant]))"
proof -
  have nb: "\<not> tenantIndexBuilder p tenant"
    using assms by (simp add: tenantIndexBuilder_def)
  have first: "\<exists>es. snd (pollTenantAndCreateIndex p rt h tenant previous)
                  = CallTenantIndex tenant # es"
    using nb
    by (auto simp: pollTenantAndCreateIndex_def pullTenantIndex_def Let_def
        split: prod.splits option.splits sum.splits if_splits)
  show ?thesis
    using nb first by (auto simp: pollTenantAndCreateIndex_def pullTenantIndex_def Let_def)
qed

theorem tenantIndexBuilder_no_builders_witness:
  "TenantIndexBuilders (cfg (exPoller\<lparr>cfg := exCfg\<lparr>TenantIndexBuilders := 0\<rparr>\<rparr>)) \<le> 0
   \<and> \<not> PollFallback (cfg (exPoller\<lparr>cfg := exCfg\<lparr>TenantIndexBuilders := 0\<rparr>\<rparr>))
   \<and> tenantIndexPollError (exPoller\<lparr>cfg := exCfg\<lparr>TenantIndexBuilders := 0\<rparr>\<rparr>) exRuntime
        ([] @ [CallTenantIndex ''t1''])
        (ReadTenantIndex (reader (exPoller\<lparr>cfg := exCfg\<lparr>TenantIndexBuilders := 0\<rparr>\<rparr>)) [] ''t1'')
      = Some ErrDoesNotExist
   \<and> \<not> tenantIndexBuilder (exPoller\<lparr>cfg := exCfg\<lparr>TenantIndexBuilders := 0\<rparr>\<rparr>) ''t1''
   \<and> pollTenantAndCreateIndex (exPoller\<lparr>cfg := exCfg\<lparr>TenantIndexBuilders := 0\<rparr>\<rparr>)
        exRuntime [] ''t1'' exPrevious
      = (Inl (ErrWrap ''failed to pull tenant index and no fallback configured'' ErrDoesNotExist),
         [CallTenantIndex ''t1''])"
proof -
  have n: "TenantIndexBuilders (cfg (exPoller\<lparr>cfg := exCfg\<lparr>TenantIndexBuilders := 0\<rparr>\<rparr>)) \<le> 0"
    by simp
  have f: "\<not> PollFallback (cfg (exPoller\<lparr>cfg := exCfg\<lparr>TenantIndexBuilders := 0\<rparr>\<rparr>))"
    by (simp add: exCfg_def)
  have e: "tenantIndexPollError (exPoller\<lparr>cfg := exCfg\<lparr>TenantIndexBuilders := 0\<rparr>\<rparr>) exRuntime
        ([] @ [CallTenantIndex ''t1''])
        (ReadTenantIndex (reader (exPoller\<lparr>cfg := exCfg\<lparr>TenantIndexBuilders := 0\<rparr>\<rparr>)) [] ''t1'')
      = Some ErrDoesNotExist"
    by (simp add: tenantIndexPollError_def ex_defs)
  from tenantIndexBuilder_no_builders[OF n, of "''t1''" exRuntime "[]" exPrevious ErrDoesNotExist]
       n f e
  show ?thesis by simp
qed

section \<open>deleteTenant\<close>

text \<open>
  Words for the statement. The callback of \<open>Find\<close> reads the clock once for each object,
  after the line it logs: \<open>walk_checks\<close> pairs each object with the history at that
  moment, and \<open>olderThanAge\<close> is the comparison the callback makes there.
\<close>

definition olderThanAge :: "Poller \<Rightarrow> Runtime \<Rightarrow> history \<times> FindMatch \<Rightarrow> bool" where
  "olderThanAge p rt check =
     (time_Since rt (fst check) (Modified (snd check)) > EmptyTenantDeletionAge (cfg p))"

fun walk_checks :: "history \<Rightarrow> FindMatch list \<Rightarrow> (history \<times> FindMatch) list" where
  "walk_checks h [] = []"
| "walk_checks h (opts # rest) =
     (h @ [Logged ''checking object for deletion'' [Key opts]], opts)
     # walk_checks (h @ [Logged ''checking object for deletion'' [Key opts]]) rest"

fun isDelete :: "event \<Rightarrow> bool" where
  "isDelete (CallDelete name keypath) = True"
| "isDelete e = False"

fun isFind :: "event \<Rightarrow> bool" where
  "isFind (CallFind keypath) = True"
| "isFind e = False"

definition deleteCall :: "string \<Rightarrow> event" where
  "deleteCall object = (case path_Split object of (dir, name) \<Rightarrow> CallDelete name [dir])"

text \<open>
  Two stores for the reaper, with the threshold at 10 ns and the clock at 1000: in the
  first the walk finds three objects, all older than the threshold, and the delete of the
  second fails; in the second the walk hands over one old object and then fails.
\<close>

definition reapCfg :: PollerConfig where
  "reapCfg = exCfg\<lparr>EmptyTenantDeletionEnabled := True, EmptyTenantDeletionAge := 10\<rparr>"

definition reapPoller :: Poller where
  "reapPoller = exPoller\<lparr>cfg := reapCfg,
     reader := exReader\<lparr>Find := (\<lambda>h k.
        ([\<lparr>Key = ''t3/a/meta.json'', Modified = 0\<rparr>, \<lparr>Key = ''t3/b/data'', Modified = 5\<rparr>,
          \<lparr>Key = ''t3/c/data'', Modified = 7\<rparr>], None))\<rparr>,
     writer := exWriter\<lparr>Delete := (\<lambda>h name keypath.
        if keypath = [''t3/b/''] then Some (ErrOther ''delete failed'') else None)\<rparr>\<rparr>"

definition reapFailingWalk :: Poller where
  "reapFailingWalk = exPoller\<lparr>cfg := reapCfg,
     reader := exReader\<lparr>Find := (\<lambda>h k.
        ([\<lparr>Key = ''t3/a/meta.json'', Modified = 0\<rparr>], Some (ErrOther ''listing failed'')))\<rparr>\<rparr>"

lemmas reap_defs = reapPoller_def reapFailingWalk_def reapCfg_def ex_defs

lemma deleteTenant_walk_eq:
  "deleteTenant_walk p rt h matches (found, recent, es) =
     (found @ map (Key \<circ> snd) (filter (olderThanAge p rt) (walk_checks (h @ es) matches)),
      recent + int (length (filter (Not \<circ> olderThanAge p rt) (walk_checks (h @ es) matches))),
      es @ map (\<lambda>opts. Logged ''checking object for deletion'' [Key opts]) matches)"
  by (induction matches arbitrary: found recent es) (auto simp: olderThanAge_def Let_def)

lemma deleteTenant_delete_events:
  "deleteTenant_delete p tenantID h objects es = (r, es') \<Longrightarrow>
     \<exists>attempted rest.
        objects = attempted @ rest
      \<and> filter isDelete es' = filter isDelete es @ map deleteCall attempted
      \<and> (r = None \<longrightarrow> rest = [])
      \<and> (\<forall>err. r = Some err \<longrightarrow> attempted \<noteq> []
            \<and> (\<exists>h'. Delete (writer p) h' (snd (path_Split (last attempted)))
                       [fst (path_Split (last attempted))] = Some err))"
proof (induction objects arbitrary: es)
  case Nil
  then show ?case by auto
next
  case (Cons object objects)
  obtain dir name where sp: "path_Split object = (dir, name)" by (cases "path_Split object")
  let ?es = "es @ [Logged ''deleting'' [tenantID, object]]"
  show ?case
  proof (cases "Delete (writer p) (h @ ?es) name [dir]")
    case (Some err)
    with Cons.prems sp have r: "r = Some err" and e: "es' = ?es @ [CallDelete name [dir]]"
      by (auto simp: Let_def)
    have "object # objects = [object] @ objects
        \<and> filter isDelete es' = filter isDelete es @ map deleteCall [object]
        \<and> (r = None \<longrightarrow> objects = [])
        \<and> (\<forall>err. r = Some err \<longrightarrow> [object] \<noteq> []
            \<and> (\<exists>h'. Delete (writer p) h' (snd (path_Split (last [object])))
                       [fst (path_Split (last [object]))] = Some err))"
      using r e sp Some by (auto simp: deleteCall_def)
    then show ?thesis by blast
  next
    case None
    with Cons.prems sp
    have rec: "deleteTenant_delete p tenantID h objects (?es @ [CallDelete name [dir]]) = (r, es')"
      by (auto simp: Let_def)
    from Cons.IH[OF rec] obtain attempted rest where
      a: "objects = attempted @ rest"
      and b: "filter isDelete es' = filter isDelete (?es @ [CallDelete name [dir]]) @ map deleteCall attempted"
      and c: "r = None \<longrightarrow> rest = []"
      and d: "\<forall>err. r = Some err \<longrightarrow> attempted \<noteq> []
            \<and> (\<exists>h'. Delete (writer p) h' (snd (path_Split (last attempted)))
                       [fst (path_Split (last attempted))] = Some err)"
      by blast
    have "object # objects = (object # attempted) @ rest
        \<and> filter isDelete es' = filter isDelete es @ map deleteCall (object # attempted)
        \<and> (r = None \<longrightarrow> rest = [])
        \<and> (\<forall>err. r = Some err \<longrightarrow> object # attempted \<noteq> []
            \<and> (\<exists>h'. Delete (writer p) h' (snd (path_Split (last (object # attempted))))
                       [fst (path_Split (last (object # attempted)))] = Some err))"
      using a b c d sp by (auto simp: deleteCall_def)
    then show ?thesis by blast
  qed
qed

text \<open>
  Claim C7, as stated, has no branch for a walk of the store that fails. The walk below
  visits one object older than the threshold and then fails; no object is newer and the
  tenant index does not exist, so the chain of the claim ends in its last branch (delete
  each old object). The code returns the error of the walk and deletes nothing.
\<close>

theorem deleteTenant_chain_counterexample:
  "EmptyTenantDeletionEnabled (cfg reapFailingWalk)
   \<and> EmptyTenantDeletionAge (cfg reapFailingWalk) \<noteq> 0
   \<and> Find (reader reapFailingWalk) [Logged ''deleting tenant'' [''t3'']] [''t3'']
       = ([\<lparr>Key = ''t3/a/meta.json'', Modified = 0\<rparr>], Some (ErrOther ''listing failed''))
   \<and> olderThanAge reapFailingWalk exRuntime
        ([Logged ''deleting tenant'' [''t3''], CallFind [''t3''],
          Logged ''checking object for deletion'' [''t3/a/meta.json'']],
         \<lparr>Key = ''t3/a/meta.json'', Modified = 0\<rparr>)
   \<and> ReadTenantIndex (reader reapFailingWalk)
        [Logged ''deleting tenant'' [''t3''], CallFind [''t3''],
         Logged ''checking object for deletion'' [''t3/a/meta.json'']] ''t3''
       = Inl ErrDoesNotExist
   \<and> deleteTenant reapFailingWalk exRuntime [] ''t3''
       = (Some (ErrOther ''listing failed''),
          [Logged ''deleting tenant'' [''t3''], CallFind [''t3''],
           Logged ''checking object for deletion'' [''t3/a/meta.json'']])"
  by (simp add: reap_defs deleteTenant_def olderThanAge_def time_Since_def)

text \<open>
  The loop over the objects calls \<open>Delete\<close> once for each, after the line it logs:
  \<open>delete_attempts\<close> pairs each object with the history at the moment of its call, all
  the objects before it having been deleted, and \<open>deleteAnswer\<close> is what the store
  answers there.
\<close>

fun delete_attempts :: "string \<Rightarrow> history \<Rightarrow> string list \<Rightarrow> (history \<times> string) list" where
  "delete_attempts tenantID h [] = []"
| "delete_attempts tenantID h (object # rest) =
     (h @ [Logged ''deleting'' [tenantID, object]], object)
     # delete_attempts tenantID (h @ [Logged ''deleting'' [tenantID, object], deleteCall object]) rest"

definition deleteAnswer :: "Poller \<Rightarrow> history \<times> string \<Rightarrow> error option" where
  "deleteAnswer p attempt =
     (case path_Split (snd attempt) of (dir, name) \<Rightarrow> Delete (writer p) (fst attempt) name [dir])"

lemma deleteTenant_delete_exact:
  "deleteTenant_delete p tenantID h objects es = (r, es') \<Longrightarrow>
     r = (case dropWhile (\<lambda>a. deleteAnswer p a = None) (delete_attempts tenantID (h @ es) objects) of
            [] \<Rightarrow> None | a # later \<Rightarrow> deleteAnswer p a)
   \<and> filter isDelete es' = filter isDelete es
        @ map (deleteCall \<circ> snd)
            (takeWhile (\<lambda>a. deleteAnswer p a = None) (delete_attempts tenantID (h @ es) objects)
             @ take 1 (dropWhile (\<lambda>a. deleteAnswer p a = None)
                         (delete_attempts tenantID (h @ es) objects)))"
proof (induction objects arbitrary: es)
  case Nil
  then show ?case by simp
next
  case (Cons object objects)
  obtain dir name where sp: "path_Split object = (dir, name)" by (cases "path_Split object")
  let ?es = "es @ [Logged ''deleting'' [tenantID, object]]"
  have ans: "deleteAnswer p (h @ ?es, object) = Delete (writer p) (h @ ?es) name [dir]"
    by (simp add: deleteAnswer_def sp)
  have dc: "deleteCall object = CallDelete name [dir]" by (simp add: deleteCall_def sp)
  show ?case
  proof (cases "Delete (writer p) (h @ ?es) name [dir]")
    case (Some err)
    with Cons.prems sp have r: "r = Some err" and e: "es' = ?es @ [CallDelete name [dir]]"
      by (auto simp: Let_def)
    show ?thesis using r e ans Some dc by simp
  next
    case None
    with Cons.prems sp
    have rec: "deleteTenant_delete p tenantID h objects (?es @ [CallDelete name [dir]]) = (r, es')"
      by (auto simp: Let_def)
    from Cons.IH[OF rec] show ?thesis using ans None dc by simp
  qed
qed


text \<open>
  Claim C7, amended. The empty-tenant reaper behaves as this chain: if
  \<open>EmptyTenantDeletionEnabled\<close> is false it is a no-op returning no error; otherwise if
  \<open>EmptyTenantDeletionAge\<close> is 0 it returns a configuration error without walking the
  store; otherwise, if the walk of the store fails it returns that error and deletes
  nothing; otherwise if any object under the tenant is not older than the threshold it
  deletes nothing; otherwise if \<open>read_tenant_index\<close> returns anything other than
  DoesNotExist (success too) it deletes nothing; otherwise it deletes the objects in the
  order of the walk, up to and with the first one whose delete fails, and returns the
  error of that delete: no object after it is deleted. When no delete fails it deletes
  them all and returns no error.
\<close>

theorem deleteTenant_chain:
  assumes find: "Find (reader p) (h @ [Logged ''deleting tenant'' [tenantID]]) [tenantID]
                   = (matches, findErr)"
    and checks: "checks = walk_checks (h @ [Logged ''deleting tenant'' [tenantID], CallFind [tenantID]]) matches"
    and idx: "indexErr = (case ReadTenantIndex (reader p)
                 (h @ [Logged ''deleting tenant'' [tenantID], CallFind [tenantID]]
                    @ map (\<lambda>opts. Logged ''checking object for deletion'' [Key opts]) matches)
                 tenantID of Inl err \<Rightarrow> Some err | Inr idx \<Rightarrow> None)"
    and attempts: "attempts = delete_attempts tenantID
                 (h @ [Logged ''deleting tenant'' [tenantID], CallFind [tenantID]]
                    @ map (\<lambda>opts. Logged ''checking object for deletion'' [Key opts]) matches
                    @ [CallTenantIndex tenantID])
                 (map Key matches)"
    and res: "deleteTenant p rt h tenantID = (r, es)"
  shows "(\<not> EmptyTenantDeletionEnabled (cfg p) \<longrightarrow> r = None \<and> es = [])
    \<and> (EmptyTenantDeletionEnabled (cfg p) \<and> EmptyTenantDeletionAge (cfg p) = 0 \<longrightarrow>
          r = Some (ErrOther ''empty tenant deletion age must be greater than 0'')
          \<and> filter isFind es = [] \<and> filter isDelete es = [])
    \<and> (EmptyTenantDeletionEnabled (cfg p) \<and> EmptyTenantDeletionAge (cfg p) \<noteq> 0 \<longrightarrow>
          (findErr \<noteq> None \<longrightarrow> r = findErr \<and> filter isDelete es = [])
        \<and> (findErr = None \<and> list_ex (Not \<circ> olderThanAge p rt) checks \<longrightarrow>
              r = None \<and> filter isDelete es = [])
        \<and> (findErr = None \<and> list_all (olderThanAge p rt) checks
              \<and> \<not> errors_Is indexErr ErrDoesNotExist \<longrightarrow>
              r = None \<and> filter isDelete es = [])
        \<and> (findErr = None \<and> list_all (olderThanAge p rt) checks
              \<and> errors_Is indexErr ErrDoesNotExist \<longrightarrow>
              r = (case dropWhile (\<lambda>a. deleteAnswer p a = None) attempts of
                     [] \<Rightarrow> None | a # later \<Rightarrow> deleteAnswer p a)
            \<and> filter isDelete es
                = map (deleteCall \<circ> snd)
                    (takeWhile (\<lambda>a. deleteAnswer p a = None) attempts
                     @ take 1 (dropWhile (\<lambda>a. deleteAnswer p a = None) attempts))))"
proof -
  let ?es0 = "[Logged ''deleting tenant'' [tenantID], CallFind [tenantID]]"
  let ?logs = "map (\<lambda>opts. Logged ''checking object for deletion'' [Key opts]) matches"
  let ?found = "map (Key \<circ> snd) (filter (olderThanAge p rt) checks)"
  let ?recent = "int (length (filter (Not \<circ> olderThanAge p rt) checks))"
  have walk: "deleteTenant_walk p rt h matches ([], 0, ?es0) = (?found, ?recent, ?es0 @ ?logs)"
    using checks by (simp add: deleteTenant_walk_eq)
  have nodel: "filter isDelete (?es0 @ ?logs) = []"
    by (simp add: filter_empty_conv)
  have recent_pos: "(?recent > 0) = list_ex (Not \<circ> olderThanAge p rt) checks"
    by (auto simp: list_ex_iff filter_empty_conv)
  have all_old: "list_all (olderThanAge p rt) checks \<Longrightarrow> \<not> list_ex (Not \<circ> olderThanAge p rt) checks"
    by (auto simp: list_ex_iff list_all_iff)
  have found_all: "list_all (olderThanAge p rt) checks \<Longrightarrow> ?found = map Key matches"
  proof -
    have "map snd (walk_checks h0 matches) = matches" for h0
      by (induction matches arbitrary: h0) auto
    then have m: "map snd checks = matches" using checks by simp
    assume "list_all (olderThanAge p rt) checks"
    then have "filter (olderThanAge p rt) checks = checks"
      by (simp add: list_all_iff)
    then show ?thesis using m by (metis map_map)
  qed
  have c1: "\<not> EmptyTenantDeletionEnabled (cfg p) \<longrightarrow> r = None \<and> es = []"
    using res by (auto simp: deleteTenant_def)
  have c2: "EmptyTenantDeletionEnabled (cfg p) \<and> EmptyTenantDeletionAge (cfg p) = 0 \<longrightarrow>
          r = Some (ErrOther ''empty tenant deletion age must be greater than 0'')
          \<and> filter isFind es = [] \<and> filter isDelete es = []"
    using res by (auto simp: deleteTenant_def)
  have c3: "findErr \<noteq> None \<longrightarrow> r = findErr \<and> filter isDelete es = []"
    if "EmptyTenantDeletionEnabled (cfg p) \<and> EmptyTenantDeletionAge (cfg p) \<noteq> 0"
    using res that find walk nodel by (auto simp: deleteTenant_def)
  have c4: "findErr = None \<and> list_ex (Not \<circ> olderThanAge p rt) checks \<longrightarrow>
              r = None \<and> filter isDelete es = []"
    if "EmptyTenantDeletionEnabled (cfg p) \<and> EmptyTenantDeletionAge (cfg p) \<noteq> 0"
    using res that find walk nodel recent_pos by (auto simp: deleteTenant_def)
  have c5: "findErr = None \<and> list_all (olderThanAge p rt) checks
              \<and> \<not> errors_Is indexErr ErrDoesNotExist \<longrightarrow>
              r = None \<and> filter isDelete es = []"
    if "EmptyTenantDeletionEnabled (cfg p) \<and> EmptyTenantDeletionAge (cfg p) \<noteq> 0"
    using res that find walk nodel recent_pos all_old idx
    by (auto simp: deleteTenant_def simp del: deleteTenant_walk.simps)
  have c6: "r = (case dropWhile (\<lambda>a. deleteAnswer p a = None) attempts of
                     [] \<Rightarrow> None | a # later \<Rightarrow> deleteAnswer p a)
            \<and> filter isDelete es
                = map (deleteCall \<circ> snd)
                    (takeWhile (\<lambda>a. deleteAnswer p a = None) attempts
                     @ take 1 (dropWhile (\<lambda>a. deleteAnswer p a = None) attempts))"
    if en: "EmptyTenantDeletionEnabled (cfg p) \<and> EmptyTenantDeletionAge (cfg p) \<noteq> 0"
      and br: "findErr = None \<and> list_all (olderThanAge p rt) checks
              \<and> errors_Is indexErr ErrDoesNotExist"
  proof -
    have nr: "\<not> ?recent > 0" using br all_old recent_pos by blast
    have f: "?found = map Key matches" using br found_all by blast
    have "deleteTenant p rt h tenantID =
            deleteTenant_delete p tenantID h (map Key matches)
              (?es0 @ ?logs @ [CallTenantIndex tenantID])"
      using en br find walk nr f idx
      by (simp add: deleteTenant_def del: deleteTenant_walk.simps)
    with res have "deleteTenant_delete p tenantID h (map Key matches)
              (?es0 @ ?logs @ [CallTenantIndex tenantID]) = (r, es)" by simp
    from deleteTenant_delete_exact[OF this] show ?thesis
      unfolding attempts by (simp add: filter_empty_conv)
  qed
  show ?thesis using c1 c2 c3 c4 c5 c6 by blast
qed

theorem deleteTenant_chain_witness:
  "Find (reader reapPoller) ([] @ [Logged ''deleting tenant'' [''t3'']]) [''t3'']
     = ([\<lparr>Key = ''t3/a/meta.json'', Modified = 0\<rparr>, \<lparr>Key = ''t3/b/data'', Modified = 5\<rparr>,
         \<lparr>Key = ''t3/c/data'', Modified = 7\<rparr>], None)
   \<and> EmptyTenantDeletionEnabled (cfg reapPoller)
   \<and> EmptyTenantDeletionAge (cfg reapPoller) \<noteq> 0
   \<and> list_all (olderThanAge reapPoller exRuntime)
        (walk_checks ([] @ [Logged ''deleting tenant'' [''t3''], CallFind [''t3'']])
           [\<lparr>Key = ''t3/a/meta.json'', Modified = 0\<rparr>, \<lparr>Key = ''t3/b/data'', Modified = 5\<rparr>,
            \<lparr>Key = ''t3/c/data'', Modified = 7\<rparr>])
   \<and> errors_Is (Some ErrDoesNotExist) ErrDoesNotExist
   \<and> map (deleteAnswer reapPoller)
        (delete_attempts ''t3''
           [Logged ''deleting tenant'' [''t3''], CallFind [''t3''],
            Logged ''checking object for deletion'' [''t3/a/meta.json''],
            Logged ''checking object for deletion'' [''t3/b/data''],
            Logged ''checking object for deletion'' [''t3/c/data''],
            CallTenantIndex ''t3'']
           [''t3/a/meta.json'', ''t3/b/data'', ''t3/c/data''])
       = [None, Some (ErrOther ''delete failed''), None]
   \<and> fst (deleteTenant reapPoller exRuntime [] ''t3'') = Some (ErrOther ''delete failed'')
   \<and> filter isDelete (snd (deleteTenant reapPoller exRuntime [] ''t3''))
       = [CallDelete ''meta.json'' [''t3/a/''], CallDelete ''data'' [''t3/b/'']]"
proof -
  let ?ms = "[\<lparr>Key = ''t3/a/meta.json'', Modified = 0\<rparr>, \<lparr>Key = ''t3/b/data'', Modified = 5\<rparr>,
         \<lparr>Key = ''t3/c/data'', Modified = 7\<rparr>]"
  let ?h0 = "[Logged ''deleting tenant'' [''t3''], CallFind [''t3''],
            Logged ''checking object for deletion'' [''t3/a/meta.json''],
            Logged ''checking object for deletion'' [''t3/b/data''],
            Logged ''checking object for deletion'' [''t3/c/data''],
            CallTenantIndex ''t3'']"
  let ?at = "delete_attempts ''t3'' ?h0 [''t3/a/meta.json'', ''t3/b/data'', ''t3/c/data'']"
  have find: "Find (reader reapPoller) ([] @ [Logged ''deleting tenant'' [''t3'']]) [''t3'']
     = (?ms, None)"
    by (simp add: reap_defs)
  have en: "EmptyTenantDeletionEnabled (cfg reapPoller)
            \<and> EmptyTenantDeletionAge (cfg reapPoller) \<noteq> 0"
    by (simp add: reap_defs)
  have old: "list_all (olderThanAge reapPoller exRuntime)
        (walk_checks ([] @ [Logged ''deleting tenant'' [''t3''], CallFind [''t3'']]) ?ms)"
    by (simp add: reap_defs olderThanAge_def time_Since_def)
  have idx: "Some ErrDoesNotExist = (case ReadTenantIndex (reader reapPoller)
                 ([] @ [Logged ''deleting tenant'' [''t3''], CallFind [''t3'']]
                    @ map (\<lambda>opts. Logged ''checking object for deletion'' [Key opts]) ?ms)
                 ''t3'' of Inl err \<Rightarrow> Some err | Inr idx \<Rightarrow> None)"
    by (simp add: reap_defs)
  have at: "?at = delete_attempts ''t3''
                 ([] @ [Logged ''deleting tenant'' [''t3''], CallFind [''t3'']]
                    @ map (\<lambda>opts. Logged ''checking object for deletion'' [Key opts]) ?ms
                    @ [CallTenantIndex ''t3''])
                 (map Key ?ms)"
    by simp
  have answers: "map (deleteAnswer reapPoller) ?at = [None, Some (ErrOther ''delete failed''), None]"
    by (simp add: deleteAnswer_def deleteCall_def path_Split_def reap_defs)
  have tw: "takeWhile (\<lambda>a. deleteAnswer reapPoller a = None) ?at = take 1 ?at"
    and dw: "dropWhile (\<lambda>a. deleteAnswer reapPoller a = None) ?at = drop 1 ?at"
    using answers by (simp_all add: deleteCall_def path_Split_def)
  obtain r es where res: "deleteTenant reapPoller exRuntime [] ''t3'' = (r, es)"
    by (cases "deleteTenant reapPoller exRuntime [] ''t3''")
  from deleteTenant_chain[OF find refl idx at res] en old
  have "r = (case dropWhile (\<lambda>a. deleteAnswer reapPoller a = None) ?at of
                     [] \<Rightarrow> None | a # later \<Rightarrow> deleteAnswer reapPoller a)
            \<and> filter isDelete es
                = map (deleteCall \<circ> snd)
                    (takeWhile (\<lambda>a. deleteAnswer reapPoller a = None) ?at
                     @ take 1 (dropWhile (\<lambda>a. deleteAnswer reapPoller a = None) ?at))"
    by simp
  then have "r = Some (ErrOther ''delete failed'')
      \<and> filter isDelete es = [CallDelete ''meta.json'' [''t3/a/''], CallDelete ''data'' [''t3/b/'']]"
    unfolding tw dw using answers by (simp add: deleteCall_def path_Split_def)
  with find en old answers res show ?thesis by simp
qed

section \<open>pollTenantBlocks\<close>

text \<open>The reads of the live meta of block \<open>b\<close> of tenant \<open>t\<close> among the events.\<close>

fun isBlockMetaRead :: "UUID \<Rightarrow> string \<Rightarrow> event \<Rightarrow> bool" where
  "isBlockMetaRead b t (CallBlockMeta b' t') = (b' = b \<and> t' = t)"
| "isBlockMetaRead b t e = False"

lemma indexByID_Some:
  "indexByID xs mm b = Some v \<Longrightarrow> (v \<in> set xs \<and> BlockID v = b) \<or> mm b = Some v"
proof (induction xs arbitrary: mm)
  case Nil
  then show ?case by simp
next
  case (Cons a xs)
  from Cons.prems have "indexByID xs (mm(BlockID a \<mapsto> a)) b = Some v" by simp
  from Cons.IH[OF this]
  have "(v \<in> set xs \<and> BlockID v = b) \<or> (mm(BlockID a \<mapsto> a)) b = Some v" .
  then show ?case by (auto split: if_splits)
qed

lemma indexByID_None:
  "indexByID xs mm b = None \<Longrightarrow> b \<notin> BlockID ` set xs \<and> mm b = None"
proof (induction xs arbitrary: mm)
  case Nil
  then show ?case by simp
next
  case (Cons a xs)
  from Cons.prems have "indexByID xs (mm(BlockID a \<mapsto> a)) b = None" by simp
  from Cons.IH[OF this]
  have "b \<notin> BlockID ` set xs \<and> (mm(BlockID a \<mapsto> a)) b = None" .
  then show ?case by (auto split: if_splits)
qed

lemma indexByID_unique:
  assumes "M \<in> set xs" "\<forall>M' \<in> set xs. BlockID M' = BlockID M \<longrightarrow> M' = M"
  shows "indexByID xs Map.empty (BlockID M) = Some M"
proof (cases "indexByID xs Map.empty (BlockID M)")
  case None
  with indexByID_None[OF None] assms show ?thesis by auto
next
  case (Some v)
  with indexByID_Some[OF Some] assms show ?thesis by auto
qed

lemma splitKnown_fst:
  "fst (splitKnown mm c ids (newList, unknown)) = newList @ List.map_filter mm ids"
  by (induction ids arbitrary: newList unknown) (auto split: option.splits)

lemma splitKnown_snd:
  "snd (splitKnown mm c ids (newList, unknown))
     = foldl (\<lambda>u b. AList.update b c u) unknown (filter (\<lambda>b. mm b = None) ids)"
  by (induction ids arbitrary: newList unknown) (auto split: option.splits)

lemma set_update_subset: "set (AList.update k v al) \<subseteq> insert (k, v) (set al)"
  by (induction al) auto

lemma foldl_update_set:
  "(k, v) \<in> set (foldl (\<lambda>u b. AList.update b c u) unknown bs) \<Longrightarrow>
     (k, v) \<in> set unknown \<or> (k \<in> set bs \<and> v = c)"
proof (induction bs arbitrary: unknown)
  case Nil
  then show ?case by simp
next
  case (Cons b bs)
  from Cons.IH[OF Cons.prems[simplified]]
  have "(k, v) \<in> set (AList.update b c unknown) \<or> (k \<in> set bs \<and> v = c)" .
  moreover have "set (AList.update b c unknown) \<subseteq> insert (b, c) (set unknown)"
    by (rule set_update_subset)
  ultimately show ?case by auto
qed

lemma pollTenantBlocks_known_live_unknown:
  assumes "pollTenantBlocks_known previous tenantID live compIDs = (newBlockList, newCompactedBlocklist, unknown)"
    and "(b, False) \<in> set unknown"
  shows "indexByID (Metas previous tenantID) Map.empty b = None \<and> b \<in> set live"
proof -
  let ?mm = "indexByID (Metas previous tenantID) Map.empty"
  let ?cm = "indexByID (CompactedMetas previous tenantID) Map.empty"
  let ?ul = "snd (splitKnown ?mm False live ([], []))"
  have u: "unknown = snd (splitKnown ?cm True compIDs ([], ?ul))"
    using assms(1) by (auto simp: pollTenantBlocks_known_def Let_def split: prod.splits)
  from assms(2) have "(b, False) \<in> set ?ul"
    unfolding u splitKnown_snd by (auto dest: foldl_update_set)
  then have "b \<in> set (filter (\<lambda>b. ?mm b = None) live)"
    unfolding splitKnown_snd by (auto dest: foldl_update_set)
  then show ?thesis by simp
qed

lemma pollTenantBlocks_known_live:
  assumes "pollTenantBlocks_known previous tenantID live compIDs = (newBlockList, newCompactedBlocklist, unknown)"
  shows "newBlockList = List.map_filter (indexByID (Metas previous tenantID) Map.empty) live"
  using assms
  by (auto simp: pollTenantBlocks_known_def Let_def splitKnown_fst[of _ _ _ "[]", simplified]
      split: prod.splits dest: arg_cong[where f=fst])

lemma pollBlock_reads:
  "pollBlock p h tenantID blockID compacted = (r, es) \<Longrightarrow> isBlockMetaRead b t e \<Longrightarrow> e \<in> set es \<Longrightarrow>
     b = blockID \<and> t = tenantID \<and> \<not> compacted"
  by (auto simp: pollBlock_defs split: if_splits prod.splits option.splits)

lemma pollUnknown_loop_reads:
  "pollUnknown_loop p tenantID h entries (nb, ncb, errs, es) = (nb', ncb', errs', es') \<Longrightarrow>
     isBlockMetaRead b t e \<Longrightarrow> e \<in> set es' \<Longrightarrow> e \<in> set es \<or> (b, False) \<in> set entries"
proof (induction entries arbitrary: nb ncb errs es)
  case Nil
  then show ?case by simp
next
  case (Cons entry entries)
  obtain blockID compacted where en: "entry = (blockID, compacted)" by (cases entry)
  show ?case
  proof (cases "errs = []")
    case False
    with Cons.prems en show ?thesis by simp
  next
    case True
    obtain m cm pe es0 where pb: "pollBlock p (h @ es) tenantID blockID compacted = ((m, cm, pe), es0)"
      by (metis prod.collapse)
    from Cons.prems(1) en True pb obtain nb1 ncb1 errs1 where
      rec: "pollUnknown_loop p tenantID h entries (nb1, ncb1, errs1, es @ es0) = (nb', ncb', errs', es')"
      by (cases m; cases cm; cases pe) auto
    from Cons.IH[OF rec Cons.prems(2,3)]
    have "e \<in> set (es @ es0) \<or> (b, False) \<in> set entries" .
    with pollBlock_reads[OF pb Cons.prems(2)] en show ?thesis by auto
  qed
qed


lemma deleteTenant_delete_reads:
  "deleteTenant_delete p tenantID h objects es = (r, es') \<Longrightarrow>
     isBlockMetaRead b t e \<Longrightarrow> e \<in> set es' \<Longrightarrow> e \<in> set es"
proof (induction objects arbitrary: es)
  case Nil
  then show ?case by simp
next
  case (Cons object objects)
  obtain dir name where sp: "path_Split object = (dir, name)" by (cases "path_Split object")
  let ?es = "es @ [Logged ''deleting'' [tenantID, object]]"
  show ?case
  proof (cases "Delete (writer p) (h @ ?es) name [dir]")
    case (Some err)
    with Cons.prems sp show ?thesis by (auto simp: Let_def)
  next
    case None
    with Cons.prems sp
    have rec: "deleteTenant_delete p tenantID h objects (?es @ [CallDelete name [dir]]) = (r, es')"
      by (auto simp: Let_def)
    from Cons.IH[OF rec Cons.prems(2,3)] Cons.prems(2) show ?thesis by auto
  qed
qed

lemma deleteTenant_walk_events:
  "deleteTenant_walk p rt h matches (found, recent, es) = (found', recent', es') \<Longrightarrow>
     es' = es @ map (\<lambda>opts. Logged ''checking object for deletion'' [Key opts]) matches"
  by (simp add: deleteTenant_walk_eq)

lemma deleteTenant_reads:
  assumes "deleteTenant p rt h tenantID = (r, es)" "isBlockMetaRead b t e"
  shows "e \<notin> set es"
proof
  assume e: "e \<in> set es"
  obtain matches findErr where f: "Find (reader p) (h @ [Logged ''deleting tenant'' [tenantID]]) [tenantID] = (matches, findErr)"
    by (cases "Find (reader p) (h @ [Logged ''deleting tenant'' [tenantID]]) [tenantID]")
  obtain found recent es1 where w: "deleteTenant_walk p rt h matches
      ([], 0, [Logged ''deleting tenant'' [tenantID], CallFind [tenantID]]) = (found, recent, es1)"
    by (metis prod.collapse)
  have es1: "es1 = [Logged ''deleting tenant'' [tenantID], CallFind [tenantID]]
             @ map (\<lambda>opts. Logged ''checking object for deletion'' [Key opts]) matches"
    using deleteTenant_walk_events[OF w] .
  have n1: "e \<notin> set es1" using assms(2) unfolding es1 by (cases e) auto
  have n2: "e \<notin> set (es1 @ [CallTenantIndex tenantID])" using n1 assms(2) by (cases e) auto
  show False
  proof (cases "deleteTenant p rt h tenantID
                  = deleteTenant_delete p tenantID h found (es1 @ [CallTenantIndex tenantID])")
    case True
    with assms(1) have "deleteTenant_delete p tenantID h found (es1 @ [CallTenantIndex tenantID]) = (r, es)"
      by simp
    from deleteTenant_delete_reads[OF this assms(2) e] n2 show False by simp
  next
    case False
    then have "es = [] \<or> es = [Logged ''deleting tenant'' [tenantID]] \<or> es = es1
               \<or> es = es1 @ [CallTenantIndex tenantID]"
      using assms(1) f w
      by (auto simp: deleteTenant_def split: if_splits simp del: deleteTenant_walk.simps)
    then have "set es \<subseteq> insert (Logged ''deleting tenant'' [tenantID])
                        (set (es1 @ [CallTenantIndex tenantID]))"
      by auto
    with e have "e = Logged ''deleting tenant'' [tenantID] \<or> e \<in> set (es1 @ [CallTenantIndex tenantID])"
      by blast
    with n2 assms(2) show False by auto
  qed
qed

section \<open>Do\<close>

lemma int32_dec: "0 \<le> c \<Longrightarrow> c < 2 ^ 31 \<Longrightarrow> int32 (c - 1) = c - 1"
  by (simp add: int32_def)

lemma int32_bound: "int32 x < 2 ^ 31"
  by (simp add: int32_def)

lemma Do_func_other:
  "T \<noteq> tenantID \<Longrightarrow>
     blocklist (Do_func p rt h previous tenantID s) T = blocklist s T
   \<and> compactedBlocklist (Do_func p rt h previous tenantID s) T = compactedBlocklist s T"
  by (auto simp: Do_func_def split: prod.splits sum.splits)

lemma Do_func_counter:
  "0 \<le> tenantFailuresRemaining s \<Longrightarrow> tenantFailuresRemaining s < 2 ^ 31 \<Longrightarrow>
     tenantFailuresRemaining (Do_func p rt h previous tenantID s) \<le> tenantFailuresRemaining s
   \<and> tenantFailuresRemaining (Do_func p rt h previous tenantID s) < 2 ^ 31"
  by (auto simp: Do_func_def int32_dec split: prod.splits sum.splits)

lemma Do_func_failed:
  assumes "fst (Do_retry p rt (h @ emitted s) tenantID previous
                  (TolerateConsecutiveErrors (cfg p)) (Inr ([], []), [])) = Inl err"
  shows "blocklist (Do_func p rt h previous tenantID s) tenantID = Some (Metas previous tenantID)
       \<and> compactedBlocklist (Do_func p rt h previous tenantID s) tenantID
           = Some (CompactedMetas previous tenantID)
       \<and> tenantFailuresRemaining (Do_func p rt h previous tenantID s)
           = int32 (tenantFailuresRemaining s - 1)"
  using assms by (auto simp: Do_func_def split: prod.splits sum.splits)

lemma Do_func_empty:
  assumes "fst (Do_retry p rt (h @ emitted s) tenantID previous
                  (TolerateConsecutiveErrors (cfg p)) (Inr ([], []), [])) = Inr ([], [])"
  shows "blocklist (Do_func p rt h previous tenantID s) = blocklist s
       \<and> compactedBlocklist (Do_func p rt h previous tenantID s) = compactedBlocklist s
       \<and> tenantFailuresRemaining (Do_func p rt h previous tenantID s) = tenantFailuresRemaining s"
  using assms by (auto simp: Do_func_def split: prod.splits sum.splits)

lemma Do_loop_other:
  "T \<notin> set tenants \<Longrightarrow> Do_loop p rt h previous tenants s = (exit, s') \<Longrightarrow>
     blocklist s' T = blocklist s T \<and> compactedBlocklist s' T = compactedBlocklist s T"
proof (induction tenants arbitrary: s)
  case Nil
  then show ?case by simp
next
  case (Cons tenantID tenants)
  show ?case
  proof (cases "ctxErr rt (h @ emitted s) = None \<and> \<not> tenantFailuresRemaining s < 0")
    case True
    with Cons.prems(2)
    have "Do_loop p rt h previous tenants (Do_func p rt h previous tenantID s) = (exit, s')"
      by auto
    from Cons.IH[OF _ this] Cons.prems(1) Do_func_other[of T tenantID p rt h previous s]
    show ?thesis by simp
  next
    case False
    with Cons.prems(2) show ?thesis by (auto split: option.splits if_splits)
  qed
qed

lemma Do_loop_append:
  "Do_loop p rt h previous (xs @ ys) s =
     (case Do_loop p rt h previous xs s of
        (Completed, s') \<Rightarrow> Do_loop p rt h previous ys s'
      | r \<Rightarrow> r)"
  by (induction xs arbitrary: s) (auto split: option.splits)

lemma Do_loop_counter:
  "tenantFailuresRemaining s < 2 ^ 31 \<Longrightarrow> Do_loop p rt h previous tenants s = (exit, s') \<Longrightarrow>
     tenantFailuresRemaining s' \<le> tenantFailuresRemaining s
   \<and> tenantFailuresRemaining s' < 2 ^ 31
   \<and> (exit = Broke \<longrightarrow> tenantFailuresRemaining s' < 0)
   \<and> (\<forall>e. exit = Cancelled e \<longrightarrow> (\<exists>h'. ctxErr rt h' = Some e))"
proof (induction tenants arbitrary: s)
  case Nil
  then show ?case by auto
next
  case (Cons tenantID tenants)
  show ?case
  proof (cases "ctxErr rt (h @ emitted s) = None \<and> \<not> tenantFailuresRemaining s < 0")
    case True
    with Cons.prems(2)
    have rec: "Do_loop p rt h previous tenants (Do_func p rt h previous tenantID s) = (exit, s')"
      by auto
    from True Cons.prems(1) Do_func_counter[of s p rt h previous tenantID]
    have c: "tenantFailuresRemaining (Do_func p rt h previous tenantID s) \<le> tenantFailuresRemaining s
           \<and> tenantFailuresRemaining (Do_func p rt h previous tenantID s) < 2 ^ 31"
      by simp
    from Cons.IH[OF _ rec] c show ?thesis by force
  next
    case False
    with Cons.prems show ?thesis by (auto split: option.splits if_splits)
  qed
qed

lemma Do_init_counter:
  "tenantFailuresRemaining (Do_init p) < 2 ^ 31
   \<and> blocklist (Do_init p) T = None \<and> compactedBlocklist (Do_init p) T = None"
  using int32_bound[of "TolerateTenantFailures (cfg p)"] by (simp add: Do_init_def)

lemma Do_Inr:
  assumes "Do p rt h previous = (Inr (bl, cbl), es)"
    and "Tenants (reader p) h = (tenants, terr)"
  shows "\<exists>s. Do_loop p rt h previous tenants (Do_init p) = (Completed, s)
           \<and> bl = blocklist s \<and> cbl = compactedBlocklist s \<and> 0 \<le> tenantFailuresRemaining s"
proof -
  obtain exit s where l: "Do_loop p rt h previous tenants (Do_init p) = (exit, s)"
    by (cases "Do_loop p rt h previous tenants (Do_init p)")
  from Do_loop_counter[OF _ l] Do_init_counter[of p]
  have br: "exit = Broke \<longrightarrow> tenantFailuresRemaining s < 0" by simp
  from assms l br show ?thesis
    by (cases exit) (auto simp: Do_def split: option.splits if_splits)
qed

text \<open>The state in which the goroutine of a tenant listed once starts and ends.\<close>

lemma Do_loop_split:
  assumes "Do_loop p rt h previous (pre @ tenantID # post) s0 = (Completed, s)"
    and "Do_loop p rt h previous pre s0 = (Completed, s1)"
  shows "ctxErr rt (h @ emitted s1) = None \<and> \<not> tenantFailuresRemaining s1 < 0
       \<and> Do_loop p rt h previous post (Do_func p rt h previous tenantID s1) = (Completed, s)"
  using assms by (auto simp: Do_loop_append split: option.splits if_splits)

text \<open>
  In the three theorems on \<open>Do\<close> the tenant is the one listed after the tenants \<open>pre\<close>,
  and \<open>s1\<close> is the state of the cycle when its goroutine starts: the retry loop of the
  tenant, run from there, is what fails or succeeds.

  Claim C4. For a tenant \<open>T\<close>, listed once, whose poll fails on all of its attempts in a
  cycle that still succeeds overall, the entries of \<open>T\<close> in the returned maps are those of
  the previous list (\<open>previous.Metas(T)\<close> and \<open>previous.CompactedMetas(T)\<close>), and the
  goroutine of \<open>T\<close> decrements the failure counter by exactly one.
\<close>

theorem failed_tenant_keeps_previous:
  assumes tenants: "Tenants (reader p) h = (pre @ tenantID # post, None)"
    and once: "tenantID \<notin> set pre \<and> tenantID \<notin> set post"
    and before: "Do_loop p rt h previous pre (Do_init p) = (Completed, s1)"
    and fails: "fst (Do_retry p rt (h @ emitted s1) tenantID previous
                       (TolerateConsecutiveErrors (cfg p)) (Inr ([], []), [])) = Inl err"
    and ok: "Do p rt h previous = (Inr (bl, cbl), es)"
  shows "bl tenantID = Some (Metas previous tenantID)
       \<and> cbl tenantID = Some (CompactedMetas previous tenantID)
       \<and> tenantFailuresRemaining (Do_func p rt h previous tenantID s1)
           = tenantFailuresRemaining s1 - 1"
proof -
  from Do_Inr[OF ok tenants] obtain s where
    l: "Do_loop p rt h previous (pre @ tenantID # post) (Do_init p) = (Completed, s)"
    and bl: "bl = blocklist s" and cbl: "cbl = compactedBlocklist s"
    by blast
  let ?s2 = "Do_func p rt h previous tenantID s1"
  from Do_loop_split[OF l before]
  have adm: "\<not> tenantFailuresRemaining s1 < 0"
    and rest: "Do_loop p rt h previous post ?s2 = (Completed, s)"
    by simp_all
  from Do_loop_counter[OF _ before] Do_init_counter[of p]
  have lt: "tenantFailuresRemaining s1 < 2 ^ 31" by simp
  from Do_func_failed[OF fails]
  have f: "blocklist ?s2 tenantID = Some (Metas previous tenantID)"
    "compactedBlocklist ?s2 tenantID = Some (CompactedMetas previous tenantID)"
    "tenantFailuresRemaining ?s2 = int32 (tenantFailuresRemaining s1 - 1)"
    by simp_all
  from Do_loop_other[OF _ rest, of tenantID] once
  have "blocklist s tenantID = blocklist ?s2 tenantID"
    "compactedBlocklist s tenantID = compactedBlocklist ?s2 tenantID"
    by simp_all
  with f bl cbl adm lt show ?thesis by (simp add: int32_dec)
qed

theorem failed_tenant_keeps_previous_witness:
  "Tenants (reader exPoller) [] = ([''t1''] @ ''t2'' # [''t3''], None)
   \<and> ''t2'' \<notin> set [''t1''] \<and> ''t2'' \<notin> set [''t3'']
   \<and> fst (Do_loop exPoller exRuntime [] exPrevious [''t1''] (Do_init exPoller)) = Completed
   \<and> fst (Do_retry exPoller exRuntime
             ([] @ emitted (snd (Do_loop exPoller exRuntime [] exPrevious [''t1''] (Do_init exPoller))))
             ''t2'' exPrevious (TolerateConsecutiveErrors (cfg exPoller)) (Inr ([], []), []))
       = Inl (ErrWrap ''failed to poll tenant blocks''
               (ErrWrap ''failed listing tenant blocks'' (ErrOther ''listing failed'')))
   \<and> fst (Do exPoller exRuntime [] exPrevious)
       = Inr ([''t1'' \<mapsto> [(metaOf 1)\<lparr>TotalObjects := 99\<rparr>], ''t2'' \<mapsto> [metaOf 7]],
              [''t1'' \<mapsto> [compactedMetaOf 3], ''t2'' \<mapsto> []])
   \<and> Metas exPrevious ''t2'' = [metaOf 7] \<and> CompactedMetas exPrevious ''t2'' = []
   \<and> tenantFailuresRemaining
        (snd (Do_loop exPoller exRuntime [] exPrevious [''t1''] (Do_init exPoller))) = 1
   \<and> tenantFailuresRemaining
        (Do_func exPoller exRuntime [] exPrevious ''t2''
          (snd (Do_loop exPoller exRuntime [] exPrevious [''t1''] (Do_init exPoller)))) = 0"
proof -
  let ?s1 = "snd (Do_loop exPoller exRuntime [] exPrevious [''t1''] (Do_init exPoller))"
  let ?bl = "[''t1'' \<mapsto> [(metaOf 1)\<lparr>TotalObjects := 99\<rparr>], ''t2'' \<mapsto> [metaOf 7]]"
  let ?cbl = "[''t1'' \<mapsto> [compactedMetaOf 3], ''t2'' \<mapsto> ([] :: CompactedBlockMeta list)]"
  have tenants: "Tenants (reader exPoller) [] = ([''t1''] @ ''t2'' # [''t3''], None)"
    by (simp add: ex_defs)
  have once: "''t2'' \<notin> set [''t1''] \<and> ''t2'' \<notin> set [''t3'']" by simp
  have c: "fst (Do_loop exPoller exRuntime [] exPrevious [''t1''] (Do_init exPoller)) = Completed"
    by (simp add: model_defs ex_defs)
  then have before: "Do_loop exPoller exRuntime [] exPrevious [''t1''] (Do_init exPoller)
                       = (Completed, ?s1)"
    by (metis prod.collapse)
  have fails: "fst (Do_retry exPoller exRuntime ([] @ emitted ?s1) ''t2'' exPrevious
                      (TolerateConsecutiveErrors (cfg exPoller)) (Inr ([], []), []))
       = Inl (ErrWrap ''failed to poll tenant blocks''
               (ErrWrap ''failed listing tenant blocks'' (ErrOther ''listing failed'')))"
    by (simp add: model_defs ex_defs)
  have d: "fst (Do exPoller exRuntime [] exPrevious) = Inr (?bl, ?cbl)"
    by (simp add: model_defs ex_defs)
  then have ok: "Do exPoller exRuntime [] exPrevious
                   = (Inr (?bl, ?cbl), snd (Do exPoller exRuntime [] exPrevious))"
    by (metis prod.collapse)
  have prev: "Metas exPrevious ''t2'' = [metaOf 7] \<and> CompactedMetas exPrevious ''t2'' = []"
    by (simp add: ex_defs)
  have cnt: "tenantFailuresRemaining ?s1 = 1"
    by (simp add: model_defs ex_defs)
  from failed_tenant_keeps_previous[OF tenants once before fails ok] cnt
  have "tenantFailuresRemaining (Do_func exPoller exRuntime [] exPrevious ''t2'' ?s1) = 0"
    by simp
  with tenants c fails d prev cnt show ?thesis by simp
qed

text \<open>
  Claim C9. For a tenant, listed once, whose poll succeeds with zero live metas and zero
  compacted metas (the reaper, if it ran, returned no error), the maps returned by \<open>Do\<close>
  contain no entry at all for that tenant.
\<close>

theorem empty_tenant_has_no_entry:
  assumes tenants: "Tenants (reader p) h = (pre @ tenantID # post, None)"
    and once: "tenantID \<notin> set pre \<and> tenantID \<notin> set post"
    and before: "Do_loop p rt h previous pre (Do_init p) = (Completed, s1)"
    and empty: "fst (Do_retry p rt (h @ emitted s1) tenantID previous
                       (TolerateConsecutiveErrors (cfg p)) (Inr ([], []), [])) = Inr ([], [])"
    and ok: "Do p rt h previous = (Inr (bl, cbl), es)"
  shows "bl tenantID = None \<and> cbl tenantID = None"
proof -
  from Do_Inr[OF ok tenants] obtain s where
    l: "Do_loop p rt h previous (pre @ tenantID # post) (Do_init p) = (Completed, s)"
    and bl: "bl = blocklist s" and cbl: "cbl = compactedBlocklist s"
    by blast
  let ?s2 = "Do_func p rt h previous tenantID s1"
  from Do_loop_split[OF l before]
  have rest: "Do_loop p rt h previous post ?s2 = (Completed, s)"
    by simp
  from Do_loop_other[OF _ before, of tenantID] once Do_init_counter[of p tenantID]
  have s1: "blocklist s1 tenantID = None \<and> compactedBlocklist s1 tenantID = None"
    by simp
  from Do_func_empty[OF empty] s1
  have s2: "blocklist ?s2 tenantID = None \<and> compactedBlocklist ?s2 tenantID = None"
    by simp
  from Do_loop_other[OF _ rest, of tenantID] once s2 bl cbl
  show ?thesis by simp
qed

theorem empty_tenant_has_no_entry_witness:
  "Tenants (reader exPoller) [] = ([''t1'', ''t2''] @ ''t3'' # [], None)
   \<and> ''t3'' \<notin> set [''t1'', ''t2''] \<and> ''t3'' \<notin> set []
   \<and> fst (Do_loop exPoller exRuntime [] exPrevious [''t1'', ''t2''] (Do_init exPoller)) = Completed
   \<and> fst (Do_retry exPoller exRuntime
             ([] @ emitted (snd (Do_loop exPoller exRuntime [] exPrevious [''t1'', ''t2'']
                                   (Do_init exPoller))))
             ''t3'' exPrevious (TolerateConsecutiveErrors (cfg exPoller)) (Inr ([], []), []))
       = Inr ([], [])
   \<and> fst (Do exPoller exRuntime [] exPrevious)
       = Inr ([''t1'' \<mapsto> [(metaOf 1)\<lparr>TotalObjects := 99\<rparr>], ''t2'' \<mapsto> [metaOf 7]],
              [''t1'' \<mapsto> [compactedMetaOf 3], ''t2'' \<mapsto> []])
   \<and> [''t1'' \<mapsto> [(metaOf 1)\<lparr>TotalObjects := 99\<rparr>], ''t2'' \<mapsto> [metaOf 7]] ''t3'' = None
   \<and> [''t1'' \<mapsto> [compactedMetaOf 3], ''t2'' \<mapsto> []] ''t3'' = None"
proof -
  let ?s1 = "snd (Do_loop exPoller exRuntime [] exPrevious [''t1'', ''t2''] (Do_init exPoller))"
  let ?bl = "[''t1'' \<mapsto> [(metaOf 1)\<lparr>TotalObjects := 99\<rparr>], ''t2'' \<mapsto> [metaOf 7]]"
  let ?cbl = "[''t1'' \<mapsto> [compactedMetaOf 3], ''t2'' \<mapsto> ([] :: CompactedBlockMeta list)]"
  have tenants: "Tenants (reader exPoller) [] = ([''t1'', ''t2''] @ ''t3'' # [], None)"
    by (simp add: ex_defs)
  have once: "''t3'' \<notin> set [''t1'', ''t2''] \<and> ''t3'' \<notin> set []" by simp
  have c: "fst (Do_loop exPoller exRuntime [] exPrevious [''t1'', ''t2''] (Do_init exPoller))
             = Completed"
    by (simp add: model_defs ex_defs)
  then have before: "Do_loop exPoller exRuntime [] exPrevious [''t1'', ''t2''] (Do_init exPoller)
                       = (Completed, ?s1)"
    by (metis prod.collapse)
  have empty: "fst (Do_retry exPoller exRuntime ([] @ emitted ?s1) ''t3'' exPrevious
                      (TolerateConsecutiveErrors (cfg exPoller)) (Inr ([], []), []))
       = Inr ([], [])"
    by (simp add: model_defs ex_defs)
  have d: "fst (Do exPoller exRuntime [] exPrevious) = Inr (?bl, ?cbl)"
    by (simp add: model_defs ex_defs)
  then have ok: "Do exPoller exRuntime [] exPrevious
                   = (Inr (?bl, ?cbl), snd (Do exPoller exRuntime [] exPrevious))"
    by (metis prod.collapse)
  from empty_tenant_has_no_entry[OF tenants once before empty ok]
  have "?bl ''t3'' = None \<and> ?cbl ''t3'' = None" .
  with tenants c empty d show ?thesis by simp
qed

section \<open>The block ids of a snapshot\<close>

text \<open>
  Two conditions on the store, for one tenant: every meta it returns carries the block id
  it was asked for, and \<open>list_blocks\<close> returns no id twice, neither within a list nor
  across the two.
\<close>

definition faithfulReads :: "Poller \<Rightarrow> string \<Rightarrow> bool" where
  "faithfulReads p tenantID =
     ((\<forall>h b m err. ReadBlockMeta (reader p) h b tenantID = (Some m, err) \<longrightarrow> BlockID m = b)
    \<and> (\<forall>h b cm err. ReadCompactedBlockMeta (compactor p) h b tenantID = (Some cm, err)
           \<longrightarrow> BlockID cm = b))"

definition cleanListing :: "Poller \<Rightarrow> string \<Rightarrow> bool" where
  "cleanListing p tenantID =
     (\<forall>h currentBlockIDs currentCompactedBlockIDs err.
        Blocks (reader p) h tenantID = (currentBlockIDs, currentCompactedBlockIDs, err)
        \<longrightarrow> distinct (currentBlockIDs @ currentCompactedBlockIDs))"

lemma pollBlock_ids:
  assumes "faithfulReads p tenantID"
    and "pollBlock p h tenantID blockID compacted = ((m, cm, err), es)"
  shows "(\<forall>x. m = Some x \<longrightarrow> BlockID x = blockID) \<and> (\<forall>y. cm = Some y \<longrightarrow> BlockID y = blockID)"
proof -
  have a: "BlockID x = b" if "ReadBlockMeta (reader p) h' b tenantID = (Some x, e)" for h' b x e
    using assms(1) that unfolding faithfulReads_def by blast
  have b: "BlockID y = b" if "ReadCompactedBlockMeta (compactor p) h' b tenantID = (Some y, e)" for h' b y e
    using assms(1) that unfolding faithfulReads_def by blast
  show ?thesis
    using assms(2)
    by (auto simp: pollBlock_defs split: if_splits prod.splits option.splits dest: a b)
qed

lemma sub_add_mset: "A \<subseteq># B \<Longrightarrow> A \<subseteq># add_mset x B"
  by (auto simp: subseteq_mset_def intro: le_SucI)

lemma splitKnown_eq:
  "splitKnown mm c ids (newList, unknown) =
     (newList @ List.map_filter mm ids,
      foldl (\<lambda>u b. AList.update b c u) unknown (filter (\<lambda>b. mm b = None) ids))"
  using splitKnown_fst[of mm c ids newList unknown] splitKnown_snd[of mm c ids newList unknown]
  by (metis prod.collapse)

lemma pollUnknown_loop_ids:
  assumes f: "faithfulReads p tenantID"
  shows "pollUnknown_loop p tenantID h entries (nb, ncb, errs, es) = (nb', ncb', errs', es') \<Longrightarrow>
     \<exists>xs ys. nb' = nb @ xs \<and> ncb' = ncb @ ys
       \<and> mset (map BlockID xs) + mset (map BlockID ys) \<subseteq># mset (map fst entries)"
proof (induction entries arbitrary: nb ncb errs es)
  case Nil
  then show ?case by simp
next
  case (Cons entry entries)
  obtain blockID compacted where en: "entry = (blockID, compacted)" by (cases entry)
  show ?case
  proof (cases "errs = []")
    case False
    with Cons.prems en show ?thesis by simp
  next
    case True
    obtain m cm pe es0 where
      pb: "pollBlock p (h @ es) tenantID blockID compacted = ((m, cm, pe), es0)"
      by (metis prod.collapse)
    note id = pollBlock_ids[OF f pb]
    show ?thesis
    proof (cases m)
      case (Some x)
      with Cons.prems en True pb
      have "pollUnknown_loop p tenantID h entries (nb @ [x], ncb, errs, es @ es0)
              = (nb', ncb', errs', es')" by simp
      from Cons.IH[OF this] obtain xs ys where
        "nb' = (nb @ [x]) @ xs" "ncb' = ncb @ ys"
        "mset (map BlockID xs) + mset (map BlockID ys) \<subseteq># mset (map fst entries)"
        by blast
      with id Some en have "nb' = nb @ (x # xs) \<and> ncb' = ncb @ ys
        \<and> mset (map BlockID (x # xs)) + mset (map BlockID ys) \<subseteq># mset (map fst (entry # entries))"
        by simp
      then show ?thesis by blast
    next
      case None
      show ?thesis
      proof (cases cm)
        case (Some y)
        with Cons.prems en True pb None
        have "pollUnknown_loop p tenantID h entries (nb, ncb @ [y], errs, es @ es0)
                = (nb', ncb', errs', es')" by simp
        from Cons.IH[OF this] obtain xs ys where
          "nb' = nb @ xs" "ncb' = (ncb @ [y]) @ ys"
          "mset (map BlockID xs) + mset (map BlockID ys) \<subseteq># mset (map fst entries)"
          by blast
        with id Some en have "nb' = nb @ xs \<and> ncb' = ncb @ (y # ys)
          \<and> mset (map BlockID xs) + mset (map BlockID (y # ys)) \<subseteq># mset (map fst (entry # entries))"
          by simp
        then show ?thesis by blast
      next
        case cmNone: None
        from Cons.prems en True pb None cmNone obtain errs1 where
          "pollUnknown_loop p tenantID h entries (nb, ncb, errs1, es @ es0)
                = (nb', ncb', errs', es')" by (cases pe) auto
        from Cons.IH[OF this] obtain xs ys where
          "nb' = nb @ xs" "ncb' = ncb @ ys"
          "mset (map BlockID xs) + mset (map BlockID ys) \<subseteq># mset (map fst entries)"
          by blast
        then have "nb' = nb @ xs \<and> ncb' = ncb @ ys
          \<and> mset (map BlockID xs) + mset (map BlockID ys) \<subseteq># mset (map fst (entry # entries))"
          by (simp add: sub_add_mset)
        then show ?thesis by blast
      qed
    qed
  qed
qed

lemma foldl_update_keys:
  "distinct (map fst unknown) \<Longrightarrow>
     distinct (map fst (foldl (\<lambda>u b. AList.update b c u) unknown bs))
   \<and> mset (map fst (foldl (\<lambda>u b. AList.update b c u) unknown bs))
        \<subseteq># mset (map fst unknown) + mset bs"
proof (induction bs arbitrary: unknown)
  case Nil
  then show ?case by simp
next
  case (Cons b bs)
  have d: "distinct (map fst (AList.update b c unknown))"
    using Cons.prems by (rule distinct_update)
  have m: "mset (map fst (AList.update b c unknown)) \<subseteq># mset (map fst unknown) + {#b#}"
    by (simp add: update_keys)
  from Cons.IH[OF d]
  have "distinct (map fst (foldl (\<lambda>u b. AList.update b c u) (AList.update b c unknown) bs))"
    and i: "mset (map fst (foldl (\<lambda>u b. AList.update b c u) (AList.update b c unknown) bs))
        \<subseteq># mset (map fst (AList.update b c unknown)) + mset bs"
    by simp_all
  moreover have "mset (map fst (AList.update b c unknown)) + mset bs
        \<subseteq># mset (map fst unknown) + mset (b # bs)"
    using m by (simp add: subset_mset.add_mono)
  ultimately show ?case
    using subset_mset.order_trans by fastforce
qed

lemma map_filter_indexByID_ids:
  "map BlockID (List.map_filter (indexByID metas Map.empty) ids)
     = filter (\<lambda>b. indexByID metas Map.empty b \<noteq> None) ids"
proof (induction ids)
  case Nil
  then show ?case by (simp add: List.map_filter_def)
next
  case (Cons b ids)
  show ?case
  proof (cases "indexByID metas Map.empty b")
    case None
    with Cons show ?thesis by (simp add: List.map_filter_def)
  next
    case (Some v)
    from indexByID_Some[OF Some] have "BlockID v = b" by simp
    with Cons Some show ?thesis by (simp add: List.map_filter_def)
  qed
qed

lemma pollTenantBlocks_known_ids:
  assumes "pollTenantBlocks_known previous tenantID live compIDs = (known, knownC, unknown)"
  shows "distinct (map fst unknown)
       \<and> mset (map BlockID known) + mset (map BlockID knownC) + mset (map fst unknown)
           \<subseteq># mset (live @ compIDs)"
proof -
  let ?mm = "indexByID (Metas previous tenantID) Map.empty"
  let ?cm = "indexByID (CompactedMetas previous tenantID) Map.empty"
  let ?ul = "foldl (\<lambda>u b. AList.update b False u) [] (filter (\<lambda>b. ?mm b = None) live)"
  let ?u = "foldl (\<lambda>u b. AList.update b True u) ?ul (filter (\<lambda>b. ?cm b = None) compIDs)"
  from assms have k: "known = List.map_filter ?mm live"
    and kc: "knownC = List.map_filter ?cm compIDs" and u: "unknown = ?u"
    by (simp_all add: pollTenantBlocks_known_def Let_def splitKnown_eq)
  from foldl_update_keys[of "[]" False "filter (\<lambda>b. ?mm b = None) live"]
  have d1: "distinct (map fst ?ul)"
    and m1: "mset (map fst ?ul) \<subseteq># mset (filter (\<lambda>b. ?mm b = None) live)" by simp_all
  from foldl_update_keys[OF d1, of True "filter (\<lambda>b. ?cm b = None) compIDs"]
  have d2: "distinct (map fst ?u)"
    and m2: "mset (map fst ?u) \<subseteq># mset (map fst ?ul) + mset (filter (\<lambda>b. ?cm b = None) compIDs)"
    by simp_all
  have m3: "mset (map fst ?u)
      \<subseteq># mset (filter (\<lambda>b. ?mm b = None) live) + mset (filter (\<lambda>b. ?cm b = None) compIDs)"
    using m1 m2 by (meson subset_mset.add_right_mono subset_mset.order_trans)
  have p1: "mset (filter (\<lambda>b. ?mm b \<noteq> None) live) + mset (filter (\<lambda>b. ?mm b = None) live)
              = mset live"
    by (induction live) auto
  have p2: "mset (filter (\<lambda>b. ?cm b \<noteq> None) compIDs) + mset (filter (\<lambda>b. ?cm b = None) compIDs)
              = mset compIDs"
    by (induction compIDs) auto
  have "mset (map BlockID known) + mset (map BlockID knownC) + mset (map fst unknown)
      \<subseteq># mset (filter (\<lambda>b. ?mm b \<noteq> None) live) + mset (filter (\<lambda>b. ?cm b \<noteq> None) compIDs)
          + (mset (filter (\<lambda>b. ?mm b = None) live) + mset (filter (\<lambda>b. ?cm b = None) compIDs))"
    unfolding k kc u map_filter_indexByID_ids using m3
    by (simp add: subset_mset.add_left_mono)
  also have "\<dots> = mset (live @ compIDs)"
    using p1 p2 by (simp add: ac_simps)
  finally show ?thesis using d2 u by simp
qed

lemma distinct_sub_mset:
  "mset xs \<subseteq># mset ys \<Longrightarrow> distinct ys \<Longrightarrow> distinct xs"
proof -
  assume s: "mset xs \<subseteq># mset ys" and d: "distinct ys"
  have "count (mset xs) a \<le> 1" for a
  proof -
    have "count (mset xs) a \<le> count (mset ys) a" using s by (rule mset_subset_eq_count)
    also have "\<dots> \<le> 1" using d by (simp add: distinct_count_atmost_1)
    finally show ?thesis .
  qed
  then show "distinct xs"
    unfolding distinct_count_atmost_1
    by (metis count_mset_0_iff le_neq_implies_less less_one nat_less_le)
qed

lemma pollTenantBlocks_ids:
  assumes f: "faithfulReads p tenantID"
    and poll: "pollTenantBlocks p rt h tenantID previous = (Inr (nb, ncb), es)"
    and listing: "Blocks (reader p) h tenantID = (live, compIDs, err)"
  shows "mset (map BlockID nb) + mset (map BlockID ncb) \<subseteq># mset (live @ compIDs)"
proof -
  from poll listing have errN: "err = None"
    by (auto simp: pollTenantBlocks_def split: option.splits)
  obtain known knownC unknown where
    k: "pollTenantBlocks_known previous tenantID live compIDs = (known, knownC, unknown)"
    by (metis prod.collapse)
  from poll listing errN k obtain newM newCm es1 where
    pu: "pollUnknown p rt (h @ [CallBlocks tenantID]) unknown tenantID = (Inr (newM, newCm), es1)"
    and nb: "nb = known @ newM" and ncb: "ncb = knownC @ newCm"
    by (auto simp: pollTenantBlocks_def split: prod.splits sum.splits)
  let ?entries = "sort_key (\<lambda>entry. mapOrder rt (h @ [CallBlocks tenantID]) (fst entry)) unknown"
  obtain a1 a2 a3 a4 where
    l: "pollUnknown_loop p tenantID (h @ [CallBlocks tenantID]) ?entries ([], [], [], []) = (a1, a2, a3, a4)"
    by (metis prod.collapse)
  with pu have a: "a1 = newM" "a2 = newCm" by (auto simp: pollUnknown_def split: if_splits)
  from pollUnknown_loop_ids[OF f l] a
  have "mset (map BlockID newM) + mset (map BlockID newCm) \<subseteq># mset (map fst ?entries)"
    by simp
  then have n: "mset (map BlockID newM) + mset (map BlockID newCm) \<subseteq># mset (map fst unknown)"
    by simp
  from pollTenantBlocks_known_ids[OF k]
  have kk: "mset (map BlockID known) + mset (map BlockID knownC) + mset (map fst unknown)
           \<subseteq># mset (live @ compIDs)" by simp
  have "mset (map BlockID nb) + mset (map BlockID ncb)
      = mset (map BlockID known) + mset (map BlockID knownC)
        + (mset (map BlockID newM) + mset (map BlockID newCm))"
    unfolding nb ncb by (simp add: ac_simps)
  also have "\<dots> \<subseteq># mset (map BlockID known) + mset (map BlockID knownC) + mset (map fst unknown)"
    using n by (simp add: subset_mset.add_left_mono)
  finally show ?thesis using kk by (rule subset_mset.order_trans)
qed

lemma buildTenantIndex_result:
  "buildTenantIndex p rt h tenantID previous = (Inr (nb, ncb), es) \<Longrightarrow>
     \<exists>es1. pollTenantBlocks p rt h tenantID previous = (Inr (nb, ncb), es1)"
  by (auto simp: buildTenantIndex_def Let_def split: sum.splits prod.splits if_splits option.splits)












section \<open>Two runs in succession\<close>

text \<open>
  Modelled from the spec: the blocklist state that list.go declares (spec 4.4), missing
  from the sources. Its \<open>apply(new_live, new_compacted)\<close> replaces the whole snapshot,
  and \<open>metas(tenant)\<close> and \<open>compacted_metas(tenant)\<close> return the lists of the tenant,
  empty for a tenant with no entry. This is how a second run receives the output of a
  first run as its previous list.
\<close>

definition ApplyPollResults ::
  "(string \<rightharpoonup> BlockMeta list) \<Rightarrow> (string \<rightharpoonup> CompactedBlockMeta list) \<Rightarrow> List" where
  "ApplyPollResults m c =
     \<lparr>Metas = (\<lambda>t. case m t of None \<Rightarrow> [] | Some metas \<Rightarrow> metas),
      CompactedMetas = (\<lambda>t. case c t of None \<Rightarrow> [] | Some metas \<Rightarrow> metas)\<rparr>"

text \<open>
  A store with two live blocks of \<open>t1\<close>, both with a meta, and a previous list that knows
  block 2 only.
\<close>

definition orderPoller :: Poller where
  "orderPoller = exPoller\<lparr>
     reader := exReader\<lparr>Tenants := (\<lambda>h. ([''t1''], None)),
                        Blocks := (\<lambda>h t. ([1, 2], [], None)),
                        ReadBlockMeta := (\<lambda>h b t. (Some (metaOf b), None))\<rparr>\<rparr>"

definition orderPrevious :: List where
  "orderPrevious = \<lparr>Metas = (\<lambda>t. [metaOf 2]), CompactedMetas = (\<lambda>t. [])\<rparr>"

text \<open>
  The store does not change: no answer of the store, of the clock or of the parent
  context depends on the history. (The order of the goroutines still may.)
\<close>

definition unchanging :: "Poller \<Rightarrow> Runtime \<Rightarrow> bool" where
  "unchanging p rt =
     ((\<forall>h. Tenants (reader p) h = Tenants (reader p) [])
    \<and> (\<forall>h. Blocks (reader p) h = Blocks (reader p) [])
    \<and> (\<forall>h. ReadBlockMeta (reader p) h = ReadBlockMeta (reader p) [])
    \<and> (\<forall>h. ReadTenantIndex (reader p) h = ReadTenantIndex (reader p) [])
    \<and> (\<forall>h. HasNoCompactFlag (reader p) h = HasNoCompactFlag (reader p) [])
    \<and> (\<forall>h. Find (reader p) h = Find (reader p) [])
    \<and> (\<forall>h. Delete (writer p) h = Delete (writer p) [])
    \<and> (\<forall>h. ReadCompactedBlockMeta (compactor p) h = ReadCompactedBlockMeta (compactor p) [])
    \<and> (\<forall>h. now rt h = now rt [])
    \<and> (\<forall>h. ctxErr rt h = ctxErr rt []))"

text \<open>What the poll of one unknown block returns when the store does not change.\<close>

definition blockOutcome ::
  "Poller \<Rightarrow> string \<Rightarrow> UUID \<times> bool \<Rightarrow> BlockMeta option \<times> CompactedBlockMeta option \<times> error option" where
  "blockOutcome p tenantID entry = fst (pollBlock p [] tenantID (fst entry) (snd entry))"

definition failedOutcome :: "BlockMeta option \<times> CompactedBlockMeta option \<times> error option \<Rightarrow> bool" where
  "failedOutcome outcome = (fst outcome = None \<and> fst (snd outcome) = None \<and> snd (snd outcome) \<noteq> None)"

lemma unchanging_answers:
  assumes "unchanging p rt"
  obtains rbm hnc rcbm where
    "\<And>h. ReadBlockMeta (reader p) h = rbm"
    "\<And>h. HasNoCompactFlag (reader p) h = hnc"
    "\<And>h. ReadCompactedBlockMeta (compactor p) h = rcbm"
  using assms unfolding unchanging_def by metis

lemma pollBlock_unchanging:
  assumes "unchanging p rt"
  shows "fst (pollBlock p h tenantID blockID compacted) = blockOutcome p tenantID (blockID, compacted)"
proof -
  from unchanging_answers[OF assms] obtain rbm hnc rcbm where
    a: "\<And>h. ReadBlockMeta (reader p) h = rbm"
       "\<And>h. HasNoCompactFlag (reader p) h = hnc"
       "\<And>h. ReadCompactedBlockMeta (compactor p) h = rcbm"
    by blast
  show ?thesis
    by (simp only: blockOutcome_def pollBlock_defs a fst_conv snd_conv)
qed

lemma blockOutcome_one:
  "fst (blockOutcome p tenantID entry) \<noteq> None \<Longrightarrow> fst (snd (blockOutcome p tenantID entry)) = None"
  unfolding blockOutcome_def
  by (auto simp: pollBlock_defs split: if_splits prod.splits option.splits)

lemma blockOutcome_compacted_no_live:
  "fst (blockOutcome p tenantID (b, True)) = None"
  unfolding blockOutcome_def
  by (auto simp: pollBlock_defs split: if_splits prod.splits option.splits)

lemma blockOutcome_ids:
  assumes "faithfulReads p tenantID"
  shows "(fst (blockOutcome p tenantID entry) = Some m \<longrightarrow> BlockID m = fst entry)
       \<and> (fst (snd (blockOutcome p tenantID entry)) = Some cm \<longrightarrow> BlockID cm = fst entry)"
proof -
  obtain a b c es where pb: "pollBlock p [] tenantID (fst entry) (snd entry) = ((a, b, c), es)"
    by (metis prod.collapse)
  from pollBlock_ids[OF assms pb] pb show ?thesis
    by (simp add: blockOutcome_def)
qed

lemma pollUnknown_loop_unchanging:
  assumes u: "unchanging p rt"
  shows "pollUnknown_loop p tenantID h entries (nb, ncb, errs, es) = (nb', ncb', errs', es') \<Longrightarrow>
     (errs' = [] \<longleftrightarrow> errs = [] \<and> (\<forall>e \<in> set entries. \<not> failedOutcome (blockOutcome p tenantID e)))
   \<and> (errs' = [] \<longrightarrow>
        nb' = nb @ List.map_filter (\<lambda>e. fst (blockOutcome p tenantID e)) entries
      \<and> ncb' = ncb @ List.map_filter (\<lambda>e. fst (snd (blockOutcome p tenantID e))) entries)"
proof (induction entries arbitrary: nb ncb errs es)
  case Nil
  then show ?case by (simp add: List.map_filter_def)
next
  case (Cons entry entries)
  obtain blockID compacted where en: "entry = (blockID, compacted)" by (cases entry)
  show ?case
  proof (cases "errs = []")
    case False
    with Cons.prems en show ?thesis by simp
  next
    case True
    obtain m cm pe es0 where
      pb: "pollBlock p (h @ es) tenantID blockID compacted = ((m, cm, pe), es0)"
      by (metis prod.collapse)
    from pollBlock_unchanging[OF u, of "h @ es" tenantID blockID compacted] pb en
    have out: "blockOutcome p tenantID entry = (m, cm, pe)" by simp
    show ?thesis
    proof (cases m)
      case (Some x)
      with Cons.prems en True pb
      have rec: "pollUnknown_loop p tenantID h entries (nb @ [x], ncb, errs, es @ es0)
              = (nb', ncb', errs', es')" by simp
      from blockOutcome_one[of p tenantID entry] out Some have "cm = None" by simp
      with Cons.IH[OF rec] out Some True show ?thesis
        by (auto simp: List.map_filter_def failedOutcome_def)
    next
      case None
      show ?thesis
      proof (cases cm)
        case (Some y)
        with Cons.prems en True pb None
        have rec: "pollUnknown_loop p tenantID h entries (nb, ncb @ [y], errs, es @ es0)
                = (nb', ncb', errs', es')" by simp
        with Cons.IH[OF rec] out Some None True show ?thesis
          by (auto simp: List.map_filter_def failedOutcome_def)
      next
        case cmNone: None
        show ?thesis
        proof (cases pe)
          case peNone: None
          with Cons.prems en True pb None cmNone
          have rec: "pollUnknown_loop p tenantID h entries (nb, ncb, errs, es @ es0)
                = (nb', ncb', errs', es')" by simp
          with Cons.IH[OF rec] out None cmNone peNone True show ?thesis
            by (auto simp: List.map_filter_def failedOutcome_def)
        next
          case (Some e)
          with Cons.prems en True pb None cmNone
          have rec: "pollUnknown_loop p tenantID h entries (nb, ncb, errs @ [e], es @ es0)
                = (nb', ncb', errs', es')" by simp
          with Cons.IH[OF rec] out None cmNone Some True show ?thesis
            by (auto simp: List.map_filter_def failedOutcome_def)
        qed
      qed
    qed
  qed
qed

lemma map_filter_sort_key_mset:
  "mset (List.map_filter f (sort_key k xs)) = mset (List.map_filter f xs)"
  by (simp add: List.map_filter_def)

lemma pollUnknown_unchanging:
  assumes u: "unchanging p rt"
    and pu: "pollUnknown p rt h unknown tenantID = (r, es)"
  shows "((\<exists>e \<in> set unknown. failedOutcome (blockOutcome p tenantID e)) \<longrightarrow> (\<exists>err. r = Inl err))
       \<and> ((\<forall>e \<in> set unknown. \<not> failedOutcome (blockOutcome p tenantID e)) \<longrightarrow>
            (\<exists>nb ncb. r = Inr (nb, ncb)
               \<and> mset nb = mset (List.map_filter (\<lambda>e. fst (blockOutcome p tenantID e)) unknown)
               \<and> mset ncb = mset (List.map_filter (\<lambda>e. fst (snd (blockOutcome p tenantID e))) unknown)))"
proof -
  let ?entries = "sort_key (\<lambda>entry. mapOrder rt h (fst entry)) unknown"
  obtain a1 a2 a3 a4 where
    l: "pollUnknown_loop p tenantID h ?entries ([], [], [], []) = (a1, a2, a3, a4)"
    by (metis prod.collapse)
  from pollUnknown_loop_unchanging[OF u l]
  have c: "(a3 = [] \<longleftrightarrow> (\<forall>e \<in> set unknown. \<not> failedOutcome (blockOutcome p tenantID e)))"
    and d: "a3 = [] \<longrightarrow> a1 = List.map_filter (\<lambda>e. fst (blockOutcome p tenantID e)) ?entries
           \<and> a2 = List.map_filter (\<lambda>e. fst (snd (blockOutcome p tenantID e))) ?entries"
    by simp_all
  from pu l have r: "r = (if a3 \<noteq> [] then Inl (ErrJoin a3) else Inr (a1, a2))"
    by (auto simp: pollUnknown_def split: if_splits)
  show ?thesis using c d r by (auto simp: map_filter_sort_key_mset)
qed

definition knownLive :: "List \<Rightarrow> string \<Rightarrow> UUID list \<Rightarrow> BlockMeta list" where
  "knownLive previous tenantID live =
     List.map_filter (indexByID (Metas previous tenantID) Map.empty) live"

definition knownCompacted :: "List \<Rightarrow> string \<Rightarrow> UUID list \<Rightarrow> CompactedBlockMeta list" where
  "knownCompacted previous tenantID compIDs =
     List.map_filter (indexByID (CompactedMetas previous tenantID) Map.empty) compIDs"

definition unknownEntries :: "List \<Rightarrow> string \<Rightarrow> UUID list \<Rightarrow> UUID list \<Rightarrow> (UUID \<times> bool) list" where
  "unknownEntries previous tenantID live compIDs =
     map (\<lambda>b. (b, False)) (filter (\<lambda>b. indexByID (Metas previous tenantID) Map.empty b = None) live)
     @ map (\<lambda>b. (b, True))
         (filter (\<lambda>b. indexByID (CompactedMetas previous tenantID) Map.empty b = None) compIDs)"

lemma update_fresh: "k \<notin> fst ` set al \<Longrightarrow> AList.update k v al = al @ [(k, v)]"
  by (induction al) auto

lemma foldl_update_fresh:
  "distinct bs \<Longrightarrow> set bs \<inter> fst ` set unknown = {} \<Longrightarrow>
     foldl (\<lambda>u b. AList.update b c u) unknown bs = unknown @ map (\<lambda>b. (b, c)) bs"
proof (induction bs arbitrary: unknown)
  case Nil
  then show ?case by simp
next
  case (Cons b bs)
  from Cons.prems have f: "b \<notin> fst ` set unknown" by auto
  have "set bs \<inter> fst ` set (unknown @ [(b, c)]) = {}" using Cons.prems by auto
  with Cons.IH[of "unknown @ [(b, c)]"] Cons.prems f show ?case
    by (simp add: update_fresh)
qed

lemma pollTenantBlocks_known_clean:
  assumes "distinct (live @ compIDs)"
  shows "pollTenantBlocks_known previous tenantID live compIDs
           = (knownLive previous tenantID live, knownCompacted previous tenantID compIDs,
              unknownEntries previous tenantID live compIDs)"
proof -
  let ?mm = "indexByID (Metas previous tenantID) Map.empty"
  let ?cm = "indexByID (CompactedMetas previous tenantID) Map.empty"
  have a: "foldl (\<lambda>u b. AList.update b False u) [] (filter (\<lambda>b. ?mm b = None) live)
             = map (\<lambda>b. (b, False)) (filter (\<lambda>b. ?mm b = None) live)"
    using assms foldl_update_fresh[of "filter (\<lambda>b. ?mm b = None) live" "[]" False] by simp
  have "set (filter (\<lambda>b. ?cm b = None) compIDs)
          \<inter> fst ` set (map (\<lambda>b. (b, False)) (filter (\<lambda>b. ?mm b = None) live)) = {}"
    using assms by (auto simp: image_iff)
  with foldl_update_fresh[of "filter (\<lambda>b. ?cm b = None) compIDs"
         "map (\<lambda>b. (b, False)) (filter (\<lambda>b. ?mm b = None) live)" True] assms
  have b: "foldl (\<lambda>u b. AList.update b True u)
             (map (\<lambda>b. (b, False)) (filter (\<lambda>b. ?mm b = None) live))
             (filter (\<lambda>b. ?cm b = None) compIDs)
           = unknownEntries previous tenantID live compIDs"
    by (simp add: unknownEntries_def)
  show ?thesis
    by (simp add: pollTenantBlocks_known_def Let_def splitKnown_eq a b knownLive_def
        knownCompacted_def)
qed

lemma pollTenantBlocks_unchanging:
  assumes u: "unchanging p rt"
    and listing: "Blocks (reader p) [] tenantID = (live, compIDs, lerr)"
    and d: "distinct (live @ compIDs)"
    and poll: "pollTenantBlocks p rt h tenantID previous = (r, es)"
  shows "(lerr \<noteq> None \<or> (\<exists>e \<in> set (unknownEntries previous tenantID live compIDs).
                            failedOutcome (blockOutcome p tenantID e))
          \<longrightarrow> (\<exists>err. r = Inl err))
       \<and> (lerr = None \<and> (\<forall>e \<in> set (unknownEntries previous tenantID live compIDs).
                            \<not> failedOutcome (blockOutcome p tenantID e))
          \<longrightarrow> (\<exists>nb ncb. r = Inr (nb, ncb)
                 \<and> mset nb = mset (knownLive previous tenantID live)
                     + mset (List.map_filter (\<lambda>e. fst (blockOutcome p tenantID e))
                               (unknownEntries previous tenantID live compIDs))
                 \<and> mset ncb = mset (knownCompacted previous tenantID compIDs)
                     + mset (List.map_filter (\<lambda>e. fst (snd (blockOutcome p tenantID e)))
                               (unknownEntries previous tenantID live compIDs))))"
proof -
  from u have "Blocks (reader p) h = Blocks (reader p) []"
    unfolding unchanging_def by blast
  with listing have lh: "Blocks (reader p) h tenantID = (live, compIDs, lerr)" by simp
  note k = pollTenantBlocks_known_clean[OF d, of previous tenantID]
  show ?thesis
  proof (cases lerr)
    case (Some e)
    with poll lh show ?thesis by (auto simp: pollTenantBlocks_def)
  next
    case None
    obtain r0 es0 where pu: "pollUnknown p rt (h @ [CallBlocks tenantID])
        (unknownEntries previous tenantID live compIDs) tenantID = (r0, es0)"
      by (metis prod.collapse)
    from poll lh None k pu
    have r: "r = (case r0 of Inl err \<Rightarrow> Inl (ErrWrap ''failed reading unknown blocks'' err)
                  | Inr (newM, newCm) \<Rightarrow> Inr (knownLive previous tenantID live @ newM,
                                                knownCompacted previous tenantID compIDs @ newCm))"
      by (auto simp: pollTenantBlocks_def split: sum.splits)
    from pollUnknown_unchanging[OF u pu] r None show ?thesis
      by auto
  qed
qed

lemma indexByID_iff:
  assumes "distinct (map BlockID xs)"
  shows "(indexByID xs Map.empty b = Some m) = (m \<in> set xs \<and> BlockID m = b)"
proof
  assume "indexByID xs Map.empty b = Some m"
  from indexByID_Some[OF this] show "m \<in> set xs \<and> BlockID m = b" by simp
next
  assume a: "m \<in> set xs \<and> BlockID m = b"
  have "\<forall>M' \<in> set xs. BlockID M' = BlockID m \<longrightarrow> M' = m"
    using assms a by (meson distinct_map inj_onD)
  from indexByID_unique[OF _ this] a show "indexByID xs Map.empty b = Some m" by auto
qed

lemma indexByID_None_iff:
  "(indexByID xs Map.empty b = None) = (b \<notin> BlockID ` set xs)"
proof
  assume "indexByID xs Map.empty b = None"
  from indexByID_None[OF this] show "b \<notin> BlockID ` set xs" by simp
next
  assume a: "b \<notin> BlockID ` set xs"
  show "indexByID xs Map.empty b = None"
  proof (cases "indexByID xs Map.empty b")
    case None
    then show ?thesis .
  next
    case (Some v)
    from indexByID_Some[OF Some] a show ?thesis by auto
  qed
qed

lemma set_map_filter: "set (List.map_filter f xs) = {y. \<exists>x \<in> set xs. f x = Some y}"
  by (induction xs) (auto split: option.splits)

lemma unknownEntries_iff:
  "((b, c) \<in> set (unknownEntries previous tenantID live compIDs)) =
     ((\<not> c \<and> b \<in> set live \<and> indexByID (Metas previous tenantID) Map.empty b = None)
    \<or> (c \<and> b \<in> set compIDs \<and> indexByID (CompactedMetas previous tenantID) Map.empty b = None))"
  by (auto simp: unknownEntries_def)

lemma knownLive_iff:
  "(m \<in> set (knownLive previous tenantID live)) =
     (BlockID m \<in> set live \<and> indexByID (Metas previous tenantID) Map.empty (BlockID m) = Some m)"
  by (auto simp: knownLive_def set_map_filter dest: indexByID_Some)

lemma knownCompacted_iff:
  "(m \<in> set (knownCompacted previous tenantID compIDs)) =
     (BlockID m \<in> set compIDs
      \<and> indexByID (CompactedMetas previous tenantID) Map.empty (BlockID m) = Some m)"
  by (auto simp: knownCompacted_def set_map_filter dest: indexByID_Some)

lemma distinct_ids_split:
  assumes "mset (map BlockID nb) + mset (map BlockID ncb) \<subseteq># mset (ids :: UUID list)" "distinct ids"
  shows "distinct nb \<and> distinct ncb \<and> distinct (map BlockID nb) \<and> distinct (map BlockID ncb)"
proof -
  from assms(1) have "mset (map BlockID nb @ map BlockID ncb) \<subseteq># mset ids" by simp
  from distinct_sub_mset[OF this assms(2)]
  have "distinct (map BlockID nb @ map BlockID ncb)" .
  then show ?thesis by (simp add: distinct_map)
qed

lemma pollTenantBlocks_again:
  assumes u: "unchanging p rt"
    and f: "faithfulReads p tenantID"
    and listing: "Blocks (reader p) [] tenantID = (live, compIDs, lerr)"
    and d: "distinct (live @ compIDs)"
    and first: "pollTenantBlocks p rt h tenantID previous = (Inr (nb, ncb), es)"
    and m1: "mset (Metas previous' tenantID) = mset nb"
    and m2: "mset (CompactedMetas previous' tenantID) = mset ncb"
    and second: "pollTenantBlocks p rt h' tenantID previous' = (r, es')"
  shows "\<exists>nb2 ncb2. r = Inr (nb2, ncb2) \<and> mset nb2 = mset nb \<and> mset ncb2 = mset ncb"
proof -
  let ?U = "unknownEntries previous tenantID live compIDs"
  let ?U' = "unknownEntries previous' tenantID live compIDs"
  let ?K = "knownLive previous tenantID live"
  let ?KC = "knownCompacted previous tenantID compIDs"
  let ?K' = "knownLive previous' tenantID live"
  let ?KC' = "knownCompacted previous' tenantID compIDs"
  let ?lv = "\<lambda>e. fst (blockOutcome p tenantID e)"
  let ?cv = "\<lambda>e. fst (snd (blockOutcome p tenantID e))"
  let ?mm = "indexByID (Metas previous tenantID) Map.empty"
  let ?cm = "indexByID (CompactedMetas previous tenantID) Map.empty"
  let ?mm' = "indexByID (Metas previous' tenantID) Map.empty"
  let ?cm' = "indexByID (CompactedMetas previous' tenantID) Map.empty"
  from u have bl: "\<And>h. Blocks (reader p) h = Blocks (reader p) []"
    unfolding unchanging_def by blast
  have lh: "Blocks (reader p) h tenantID = (live, compIDs, lerr)"
    using listing bl[of h] by simp
  have lh': "Blocks (reader p) h' tenantID = (live, compIDs, lerr)"
    using listing bl[of h'] by simp
  note c1 = pollTenantBlocks_unchanging[OF u listing d first]
  have lerr: "lerr = None" using c1 by auto
  have nofail: "\<forall>e \<in> set ?U. \<not> failedOutcome (blockOutcome p tenantID e)" using c1 by auto
  from c1 lerr nofail
  have e1: "mset nb = mset ?K + mset (List.map_filter ?lv ?U)"
    and e2: "mset ncb = mset ?KC + mset (List.map_filter ?cv ?U)"
    by auto
  have snb: "set nb = set ?K \<union> {m. \<exists>e \<in> set ?U. ?lv e = Some m}"
  proof -
    from e1 have "mset nb = mset (?K @ List.map_filter ?lv ?U)" by simp
    then have "set nb = set (?K @ List.map_filter ?lv ?U)" by (rule mset_eq_setD)
    then show ?thesis by (simp add: set_map_filter)
  qed
  have sncb: "set ncb = set ?KC \<union> {m. \<exists>e \<in> set ?U. ?cv e = Some m}"
  proof -
    from e2 have "mset ncb = mset (?KC @ List.map_filter ?cv ?U)" by simp
    then have "set ncb = set (?KC @ List.map_filter ?cv ?U)" by (rule mset_eq_setD)
    then show ?thesis by (simp add: set_map_filter)
  qed
  note dd = distinct_ids_split[OF pollTenantBlocks_ids[OF f first lh] d]
  have dM: "distinct (map BlockID (Metas previous' tenantID))"
  proof -
    from m1 have "mset (map BlockID (Metas previous' tenantID)) = mset (map BlockID nb)" by simp
    from mset_eq_imp_distinct_iff[OF this] dd show ?thesis by simp
  qed
  have dC: "distinct (map BlockID (CompactedMetas previous' tenantID))"
  proof -
    from m2 have "mset (map BlockID (CompactedMetas previous' tenantID)) = mset (map BlockID ncb)"
      by simp
    from mset_eq_imp_distinct_iff[OF this] dd show ?thesis by simp
  qed
  have sM: "set (Metas previous' tenantID) = set nb" using m1 by (rule mset_eq_setD)
  have sC: "set (CompactedMetas previous' tenantID) = set ncb" using m2 by (rule mset_eq_setD)
  have mm': "\<And>b m. (?mm' b = Some m) = (m \<in> set nb \<and> BlockID m = b)"
    using indexByID_iff[OF dM] sM by simp
  have cm': "\<And>b m. (?cm' b = Some m) = (m \<in> set ncb \<and> BlockID m = b)"
    using indexByID_iff[OF dC] sC by simp
  have mmN: "\<And>b. (?mm' b = None) = (b \<notin> BlockID ` set nb)"
    using indexByID_None_iff[of "Metas previous' tenantID"] sM by simp
  have cmN: "\<And>b. (?cm' b = None) = (b \<notin> BlockID ` set ncb)"
    using indexByID_None_iff[of "CompactedMetas previous' tenantID"] sC by simp
  have lvid: "\<And>e m. ?lv e = Some m \<Longrightarrow> BlockID m = fst e \<and> \<not> snd e"
  proof -
    fix e m assume a: "?lv e = Some m"
    from blockOutcome_ids[OF f, of e m] a have "BlockID m = fst e" by simp
    moreover have "\<not> snd e"
      using blockOutcome_compacted_no_live[of p tenantID "fst e"] a by (cases e) auto
    ultimately show "BlockID m = fst e \<and> \<not> snd e" by simp
  qed
  have cvid: "\<And>e m. ?cv e = Some m \<Longrightarrow> BlockID m = fst e"
    using blockOutcome_ids[OF f] by blast
  text \<open>Every entry unknown to the second poll was unknown to the first.\<close>
  have sub: "set ?U' \<subseteq> set ?U"
  proof
    fix e assume a: "e \<in> set ?U'"
    obtain b c where e: "e = (b, c)" by (cases e)
    show "e \<in> set ?U"
    proof (cases c)
      case False
      with a e have b: "b \<in> set live" "b \<notin> BlockID ` set nb"
        by (simp_all add: unknownEntries_iff mmN)
      have "?mm b = None"
      proof (cases "?mm b")
        case (Some m)
        from indexByID_Some[OF Some] have "BlockID m = b" by simp
        with Some b(1) have "m \<in> set ?K" by (simp add: knownLive_iff)
        with snb \<open>BlockID m = b\<close> b(2) show ?thesis by auto
      qed simp
      with b False e show ?thesis by (simp add: unknownEntries_iff)
    next
      case True
      with a e have b: "b \<in> set compIDs" "b \<notin> BlockID ` set ncb"
        by (simp_all add: unknownEntries_iff cmN)
      have "?cm b = None"
      proof (cases "?cm b")
        case (Some m)
        from indexByID_Some[OF Some] have "BlockID m = b" by simp
        with Some b(1) have "m \<in> set ?KC" by (simp add: knownCompacted_iff)
        with sncb \<open>BlockID m = b\<close> b(2) show ?thesis by auto
      qed simp
      with b True e show ?thesis by (simp add: unknownEntries_iff)
    qed
  qed
  have nb_live: "\<And>m. m \<in> set nb \<Longrightarrow> BlockID m \<in> set live"
  proof -
    fix m assume "m \<in> set nb"
    with snb consider "m \<in> set ?K" | e where "e \<in> set ?U" "?lv e = Some m" by auto
    then show "BlockID m \<in> set live"
    proof cases
      case 1
      then show ?thesis by (simp add: knownLive_iff)
    next
      case 2
      from lvid[OF 2(2)] 2(1) show ?thesis
        by (cases e) (auto simp: unknownEntries_iff)
    qed
  qed
  have sK': "set ?K' = set nb"
    using nb_live by (auto simp: knownLive_iff mm')
  have nolive: "\<And>e m. e \<in> set ?U' \<Longrightarrow> ?lv e \<noteq> Some m"
  proof
    fix e m assume a: "e \<in> set ?U'" and l: "?lv e = Some m"
    from a sub have "e \<in> set ?U" by blast
    with l snb have "m \<in> set nb" by auto
    moreover from lvid[OF l] a have "fst e \<notin> BlockID ` set nb"
      by (cases e) (auto simp: unknownEntries_iff mmN)
    ultimately show False using lvid[OF l] by (metis imageI)
  qed
  have sKC': "set ?KC' \<union> {m. \<exists>e \<in> set ?U'. ?cv e = Some m} = set ncb"
  proof
    show "set ?KC' \<union> {m. \<exists>e \<in> set ?U'. ?cv e = Some m} \<subseteq> set ncb"
      using sub sncb by (auto simp: knownCompacted_iff cm')
  next
    show "set ncb \<subseteq> set ?KC' \<union> {m. \<exists>e \<in> set ?U'. ?cv e = Some m}"
    proof
      fix c assume c: "c \<in> set ncb"
      with sncb consider "c \<in> set ?KC" | e where "e \<in> set ?U" "?cv e = Some c" by auto
      then show "c \<in> set ?KC' \<union> {m. \<exists>e \<in> set ?U'. ?cv e = Some m}"
      proof cases
        case 1
        with c show ?thesis by (simp add: knownCompacted_iff cm')
      next
        case 2
        obtain b fl where e: "e = (b, fl)" by (cases e)
        from cvid[OF 2(2)] e have id: "BlockID c = b" by simp
        show ?thesis
        proof (cases fl)
          case True
          with 2(1) e have "b \<in> set compIDs" by (simp add: unknownEntries_iff)
          with c id show ?thesis by (simp add: knownCompacted_iff cm')
        next
          case False
          with 2(1) e have bl: "b \<in> set live" and mmb: "?mm b = None"
            by (simp_all add: unknownEntries_iff)
          have "b \<notin> BlockID ` set nb"
          proof
            assume "b \<in> BlockID ` set nb"
            then obtain m where m: "m \<in> set nb" "BlockID m = b" by auto
            with snb consider "m \<in> set ?K" | e' where "e' \<in> set ?U" "?lv e' = Some m" by auto
            then show False
            proof cases
              case 1
              with m mmb show False by (simp add: knownLive_iff)
            next
              case 2
              from lvid[OF 2(2)] m have "e' = (b, False)" by (cases e') auto
              with 2(2) e False have "?lv e = Some m" by simp
              from blockOutcome_one[of p tenantID e] this \<open>?cv e = Some c\<close>
              show False by simp
            qed
          qed
          with bl False e have "e \<in> set ?U'" by (simp add: unknownEntries_iff mmN)
          with \<open>?cv e = Some c\<close> show ?thesis by blast
        qed
      qed
    qed
  qed
  note c2 = pollTenantBlocks_unchanging[OF u listing d second]
  have nofail': "\<forall>e \<in> set ?U'. \<not> failedOutcome (blockOutcome p tenantID e)"
    using nofail sub by blast
  from c2 lerr nofail' obtain nb2 ncb2 where
    r: "r = Inr (nb2, ncb2)"
    and f1: "mset nb2 = mset ?K' + mset (List.map_filter ?lv ?U')"
    and f2: "mset ncb2 = mset ?KC' + mset (List.map_filter ?cv ?U')"
    by auto
  have s1: "set nb2 = set nb"
  proof -
    from f1 have "mset nb2 = mset (?K' @ List.map_filter ?lv ?U')" by simp
    then have "set nb2 = set (?K' @ List.map_filter ?lv ?U')" by (rule mset_eq_setD)
    with sK' nolive show ?thesis by (auto simp: set_map_filter)
  qed
  have s2: "set ncb2 = set ncb"
  proof -
    from f2 have "mset ncb2 = mset (?KC' @ List.map_filter ?cv ?U')" by simp
    then have "set ncb2 = set (?KC' @ List.map_filter ?cv ?U')" by (rule mset_eq_setD)
    with sKC' show ?thesis by (simp add: set_map_filter)
  qed
  note dd2 = distinct_ids_split[OF pollTenantBlocks_ids[OF f second[unfolded r] lh'] d]
  from s1 dd dd2 have "mset nb2 = mset nb" by (simp add: set_eq_iff_mset_eq_distinct)
  moreover from s2 dd dd2 have "mset ncb2 = mset ncb" by (simp add: set_eq_iff_mset_eq_distinct)
  ultimately show ?thesis using r by blast
qed

definition sameUpToOrder ::
  "error + BlockMeta list \<times> CompactedBlockMeta list \<Rightarrow>
   error + BlockMeta list \<times> CompactedBlockMeta list \<Rightarrow> bool" where
  "sameUpToOrder r r' =
     (case (r, r') of
        (Inl err, Inl err') \<Rightarrow> True
      | (Inr (metas, compactedMetas), Inr (metas', compactedMetas')) \<Rightarrow>
          mset metas = mset metas' \<and> mset compactedMetas = mset compactedMetas'
      | _ \<Rightarrow> False)"

lemma sameUpToOrder_refl: "sameUpToOrder r r"
  by (auto simp: sameUpToOrder_def split: sum.splits)

lemma sameUpToOrder_Inl: "sameUpToOrder (Inl e) r = (\<exists>e'. r = Inl e')"
  by (auto simp: sameUpToOrder_def split: sum.splits)

lemma sameUpToOrder_Inr:
  "sameUpToOrder (Inr (a, b)) r = (\<exists>a' b'. r = Inr (a', b') \<and> mset a = mset a' \<and> mset b = mset b')"
  by (auto simp: sameUpToOrder_def split: sum.splits)

lemma walk_checks_older:
  assumes "\<And>h. now rt h = nw"
  shows "map snd (filter (olderThanAge p rt) (walk_checks H matches))
           = filter (\<lambda>opts. olderThanAge p rt ([], opts)) matches
       \<and> length (filter (Not \<circ> olderThanAge p rt) (walk_checks H matches))
           = length (filter (\<lambda>opts. \<not> olderThanAge p rt ([], opts)) matches)"
proof (induction matches arbitrary: H)
  case Nil
  then show ?case by simp
next
  case (Cons opts matches)
  have "olderThanAge p rt (H', opts) = olderThanAge p rt ([], opts)" for H'
    by (simp add: olderThanAge_def time_Since_def assms)
  then have o: "olderThanAge p rt (H @ [Logged ''checking object for deletion'' [Key opts]], opts)
                  = olderThanAge p rt ([], opts)" .
  show ?case using Cons[of "H @ [Logged ''checking object for deletion'' [Key opts]]"]
    by (simp add: o)
qed

lemma deleteTenant_delete_unchanging:
  assumes "\<And>h. Delete (writer p) h = dl"
  shows "fst (deleteTenant_delete p tenantID h objects es)
           = fst (deleteTenant_delete p tenantID h' objects es')"
proof (induction objects arbitrary: es es')
  case Nil
  then show ?case by simp
next
  case (Cons object objects)
  obtain dir name where sp: "path_Split object = (dir, name)" by (cases "path_Split object")
  show ?case
    using Cons[of "es @ [Logged ''deleting'' [tenantID, object], CallDelete name [dir]]"
                  "es' @ [Logged ''deleting'' [tenantID, object], CallDelete name [dir]]"]
    by (simp add: sp assms Let_def split: option.splits)
qed

lemma deleteTenant_unchanging:
  assumes u: "unchanging p rt"
  shows "fst (deleteTenant p rt h tenantID) = fst (deleteTenant p rt h' tenantID)"
proof -
  from u obtain nw dl fd ti where nw: "\<And>h. now rt h = nw"
    and dl: "\<And>h. Delete (writer p) h = dl"
    and fd: "\<And>h. Find (reader p) h = fd"
    and ti: "\<And>h. ReadTenantIndex (reader p) h = ti"
    unfolding unchanging_def by metis
  let ?es0 = "[Logged ''deleting tenant'' [tenantID], CallFind [tenantID]]"
  obtain matches findErr where f: "fd [tenantID] = (matches, findErr)"
    by (cases "fd [tenantID]")
  let ?logs = "map (\<lambda>opts. Logged ''checking object for deletion'' [Key opts]) matches"
  let ?found = "map Key (filter (\<lambda>opts. olderThanAge p rt ([], opts)) matches)"
  let ?recent = "int (length (filter (\<lambda>opts. \<not> olderThanAge p rt ([], opts)) matches))"
  have w: "deleteTenant_walk p rt H matches ([], 0, ?es0) = (?found, ?recent, ?es0 @ ?logs)" for H
    using walk_checks_older[OF nw, of p "H @ ?es0" matches]
    by (simp add: deleteTenant_walk_eq flip: map_map)
  have form: "fst (deleteTenant p rt H tenantID) =
     (if \<not> EmptyTenantDeletionEnabled (cfg p) then None
      else if EmptyTenantDeletionAge (cfg p) = 0
      then Some (ErrOther ''empty tenant deletion age must be greater than 0'')
      else if findErr \<noteq> None then findErr
      else if ?recent > 0 then None
      else if \<not> errors_Is (case ti tenantID of
                               Inl err \<Rightarrow> Some err | Inr idx \<Rightarrow> None) ErrDoesNotExist
      then None
      else fst (deleteTenant_delete p tenantID [] ?found []))" for H
  proof -
    have dH: "fst (deleteTenant_delete p tenantID H ?found (?es0 @ ?logs @ [CallTenantIndex tenantID]))
                = fst (deleteTenant_delete p tenantID [] ?found [])"
      by (rule deleteTenant_delete_unchanging[OF dl])
    show ?thesis
      using dH w[of H]
      by (simp add: deleteTenant_def fd ti f del: deleteTenant_walk.simps)
  qed
  show ?thesis by (simp only: form)
qed

lemma pullTenantIndex_unchanging:
  assumes u: "unchanging p rt"
  shows "fst (pullTenantIndex p rt h tenantID) = fst (pullTenantIndex p rt h' tenantID)"
proof -
  from u obtain nw ti where a: "\<And>h. now rt h = nw" "\<And>h. ReadTenantIndex (reader p) h = ti"
    unfolding unchanging_def by metis
  have "fst (pullTenantIndex p rt H tenantID) =
     (case (tenantIndexPollError p rt [] (ti tenantID), ti tenantID) of
        (None, Inr idx) \<Rightarrow> Some (Inr (Meta idx, CompactedMeta idx))
      | (None, Inl err) \<Rightarrow> Some (Inl err)
      | (Some err, _) \<Rightarrow>
          if \<not> PollFallback (cfg p)
          then Some (Inl (ErrWrap ''failed to pull tenant index and no fallback configured'' err))
          else None)" for H
    by (simp add: pullTenantIndex_def tenantIndexPollError_def time_Since_def a Let_def
        split: sum.splits option.splits)
  then show ?thesis by simp
qed

lemma buildTenantIndex_rel:
  assumes u: "unchanging p rt"
    and r: "sameUpToOrder (fst (pollTenantBlocks p rt h tenantID previous))
                          (fst (pollTenantBlocks p rt h' tenantID previous'))"
  shows "sameUpToOrder (fst (buildTenantIndex p rt h tenantID previous))
                       (fst (buildTenantIndex p rt h' tenantID previous'))"
proof -
  obtain r1 es1 where p1: "pollTenantBlocks p rt h tenantID previous = (r1, es1)"
    by (metis prod.collapse)
  obtain r2 es2 where p2: "pollTenantBlocks p rt h' tenantID previous' = (r2, es2)"
    by (metis prod.collapse)
  show ?thesis
  proof (cases r1)
    case (Inl e)
    with r p1 p2 obtain e' where "r2 = Inl e'" by (auto simp: sameUpToOrder_Inl)
    with Inl p1 p2 show ?thesis by (simp add: buildTenantIndex_def sameUpToOrder_def)
  next
    case (Inr lists1)
    obtain a b where l1: "lists1 = (a, b)" by (cases lists1)
    with r p1 p2 Inr obtain a' b' where r2: "r2 = Inr (a', b')"
      and m: "mset a = mset a'" "mset b = mset b'"
      by (auto simp: sameUpToOrder_Inr)
    from m have em: "(a = []) = (a' = [])" "(b = []) = (b' = [])"
      by (metis mset_zero_iff)+
    show ?thesis
    proof (cases "a = [] \<and> b = []")
      case False
      with em p1 p2 Inr l1 r2 m show ?thesis
        by (auto simp: buildTenantIndex_def Let_def sameUpToOrder_def)
    next
      case True
      with em have e': "a' = [] \<and> b' = []" by simp
      let ?h1 = "h @ es1 @ [Logged ''writing tenant index'' [tenantID]]
                 @ [CallWriteTenantIndex tenantID a b]
                 @ (if WriteTenantIndex (writer p)
                         (h @ es1 @ [Logged ''writing tenant index'' [tenantID]]) tenantID a b \<noteq> None
                    then [Logged ''failed to write tenant index'' [tenantID]] else [])"
      let ?h2 = "h' @ es2 @ [Logged ''writing tenant index'' [tenantID]]
                 @ [CallWriteTenantIndex tenantID a' b']
                 @ (if WriteTenantIndex (writer p)
                         (h' @ es2 @ [Logged ''writing tenant index'' [tenantID]]) tenantID a' b' \<noteq> None
                    then [Logged ''failed to write tenant index'' [tenantID]] else [])"
      have d: "fst (deleteTenant p rt ?h1 tenantID) = fst (deleteTenant p rt ?h2 tenantID)"
        by (rule deleteTenant_unchanging[OF u])
      obtain d1 e1 where dt1: "deleteTenant p rt ?h1 tenantID = (d1, e1)" by (metis prod.collapse)
      obtain d2 e2 where dt2: "deleteTenant p rt ?h2 tenantID = (d2, e2)" by (metis prod.collapse)
      from d dt1 dt2 have dd: "d1 = d2" by simp
      have b1: "fst (buildTenantIndex p rt h tenantID previous)
                  = (case d1 of Some err \<Rightarrow> Inl (ErrWrap ''failed to delete tenant'' err)
                     | None \<Rightarrow> Inr (a, b))"
        using p1 Inr l1 True dt1
        by (simp add: buildTenantIndex_def Let_def split: option.splits)
      have b2: "fst (buildTenantIndex p rt h' tenantID previous')
                  = (case d2 of Some err \<Rightarrow> Inl (ErrWrap ''failed to delete tenant'' err)
                     | None \<Rightarrow> Inr (a', b'))"
        using p2 r2 e' dt2
        by (simp add: buildTenantIndex_def Let_def split: option.splits)
      show ?thesis unfolding b1 b2 using dd True e'
        by (simp add: sameUpToOrder_def split: option.splits)
    qed
  qed
qed

lemma pollTenantBlocks_same:
  assumes u: "unchanging p rt"
    and c: "cleanListing p tenantID"
    and m: "Metas previous tenantID = Metas previous' tenantID"
           "CompactedMetas previous tenantID = CompactedMetas previous' tenantID"
  shows "sameUpToOrder (fst (pollTenantBlocks p rt h tenantID previous))
                       (fst (pollTenantBlocks p rt h' tenantID previous'))"
proof -
  obtain live compIDs lerr where l: "Blocks (reader p) [] tenantID = (live, compIDs, lerr)"
    by (metis prod.collapse)
  from c l have d: "distinct (live @ compIDs)" unfolding cleanListing_def by blast
  obtain r1 es1 where p1: "pollTenantBlocks p rt h tenantID previous = (r1, es1)"
    by (metis prod.collapse)
  obtain r2 es2 where p2: "pollTenantBlocks p rt h' tenantID previous' = (r2, es2)"
    by (metis prod.collapse)
  have k: "knownLive previous tenantID live = knownLive previous' tenantID live"
    "knownCompacted previous tenantID compIDs = knownCompacted previous' tenantID compIDs"
    "unknownEntries previous tenantID live compIDs = unknownEntries previous' tenantID live compIDs"
    using m by (simp_all add: knownLive_def knownCompacted_def unknownEntries_def)
  note c1 = pollTenantBlocks_unchanging[OF u l d p1]
  note c2 = pollTenantBlocks_unchanging[OF u l d p2, folded k]
  show ?thesis
  proof (cases "lerr \<noteq> None \<or> (\<exists>e \<in> set (unknownEntries previous tenantID live compIDs).
                            failedOutcome (blockOutcome p tenantID e))")
    case True
    with c1 c2 p1 p2 show ?thesis by (auto simp: sameUpToOrder_def)
  next
    case False
    with c1 c2 p1 p2 show ?thesis by (auto simp: sameUpToOrder_def)
  qed
qed

lemma attempt_same:
  assumes u: "unchanging p rt"
    and c: "cleanListing p tenantID"
    and m: "Metas previous tenantID = Metas previous' tenantID"
           "CompactedMetas previous tenantID = CompactedMetas previous' tenantID"
  shows "sameUpToOrder (fst (pollTenantAndCreateIndex p rt h tenantID previous))
                       (fst (pollTenantAndCreateIndex p rt h' tenantID previous'))"
proof (cases "tenantIndexBuilder p tenantID")
  case True
  with buildTenantIndex_rel[OF u pollTenantBlocks_same[OF u c m]]
  show ?thesis by (simp add: pollTenantAndCreateIndex_def)
next
  case False
  obtain o1 es1 where p1: "pullTenantIndex p rt h tenantID = (o1, es1)" by (metis prod.collapse)
  obtain o2 es2 where p2': "pullTenantIndex p rt h' tenantID = (o2, es2)" by (metis prod.collapse)
  from pullTenantIndex_unchanging[OF u, of h tenantID h'] p1 p2' have "o2 = o1" by simp
  with p2' have p2: "pullTenantIndex p rt h' tenantID = (o1, es2)" by simp
  show ?thesis
  proof (cases o1)
    case (Some r)
    with False p1 p2 show ?thesis
      by (simp add: pollTenantAndCreateIndex_def sameUpToOrder_refl)
  next
    case None
    with False p1 p2
      buildTenantIndex_rel[OF u pollTenantBlocks_same[OF u c m], of "h @ es1" "h' @ es2"]
    show ?thesis
      by (simp add: pollTenantAndCreateIndex_def case_prod_beta)
  qed
qed

lemma buildTenantIndex_again:
  assumes u: "unchanging p rt"
    and f: "faithfulReads p tenantID"
    and c: "cleanListing p tenantID"
    and first: "fst (buildTenantIndex p rt h tenantID previous) = Inr (nb, ncb)"
    and m1: "mset (Metas previous' tenantID) = mset nb"
    and m2: "mset (CompactedMetas previous' tenantID) = mset ncb"
  shows "sameUpToOrder (Inr (nb, ncb)) (fst (buildTenantIndex p rt h' tenantID previous'))"
proof -
  obtain live compIDs lerr where l: "Blocks (reader p) [] tenantID = (live, compIDs, lerr)"
    by (metis prod.collapse)
  from c l have d: "distinct (live @ compIDs)" unfolding cleanListing_def by blast
  from first obtain es where "buildTenantIndex p rt h tenantID previous = (Inr (nb, ncb), es)"
    by (metis prod.collapse)
  from buildTenantIndex_result[OF this] obtain es1 where
    p1: "pollTenantBlocks p rt h tenantID previous = (Inr (nb, ncb), es1)" by blast
  obtain r2 es2 where p2: "pollTenantBlocks p rt h' tenantID previous' = (r2, es2)"
    by (metis prod.collapse)
  from pollTenantBlocks_again[OF u f l d p1 m1 m2 p2] p1 p2
  have "sameUpToOrder (fst (pollTenantBlocks p rt h tenantID previous))
                      (fst (pollTenantBlocks p rt h' tenantID previous'))"
    by (auto simp: sameUpToOrder_Inr)
  from buildTenantIndex_rel[OF u this] first show ?thesis by simp
qed

lemma attempt_again:
  assumes u: "unchanging p rt"
    and f: "faithfulReads p tenantID"
    and c: "cleanListing p tenantID"
    and first: "fst (pollTenantAndCreateIndex p rt h tenantID previous) = Inr (nb, ncb)"
    and m1: "mset (Metas previous' tenantID) = mset nb"
    and m2: "mset (CompactedMetas previous' tenantID) = mset ncb"
  shows "sameUpToOrder (Inr (nb, ncb)) (fst (pollTenantAndCreateIndex p rt h' tenantID previous'))"
proof (cases "tenantIndexBuilder p tenantID")
  case True
  with first have "fst (buildTenantIndex p rt h tenantID previous) = Inr (nb, ncb)"
    by (simp add: pollTenantAndCreateIndex_def)
  from buildTenantIndex_again[OF u f c this m1 m2, of h'] True show ?thesis
    by (simp add: pollTenantAndCreateIndex_def)
next
  case False
  obtain o1 es1 where p1: "pullTenantIndex p rt h tenantID = (o1, es1)" by (metis prod.collapse)
  obtain o2 es2 where p2': "pullTenantIndex p rt h' tenantID = (o2, es2)" by (metis prod.collapse)
  from pullTenantIndex_unchanging[OF u, of h tenantID h'] p1 p2' have "o2 = o1" by simp
  with p2' have p2: "pullTenantIndex p rt h' tenantID = (o1, es2)" by simp
  show ?thesis
  proof (cases o1)
    case (Some r)
    with False p1 p2 first show ?thesis
      by (simp add: pollTenantAndCreateIndex_def sameUpToOrder_refl)
  next
    case None
    with False p1 first
    have "fst (buildTenantIndex p rt (h @ es1) tenantID previous) = Inr (nb, ncb)"
      by (simp add: pollTenantAndCreateIndex_def case_prod_beta)
    from buildTenantIndex_again[OF u f c this m1 m2, of "h' @ es2"] False p2 None
    show ?thesis
      by (simp add: pollTenantAndCreateIndex_def case_prod_beta)
  qed
qed

text \<open>What the retry loop of a tenant's goroutine ends with.\<close>

definition task ::
  "Poller \<Rightarrow> Runtime \<Rightarrow> history \<Rightarrow> List \<Rightarrow> string \<Rightarrow> error + BlockMeta list \<times> CompactedBlockMeta list" where
  "task p rt h previous tenantID =
     fst (Do_retry p rt h tenantID previous (TolerateConsecutiveErrors (cfg p)) (Inr ([], []), []))"

lemma Do_retry_nonneg:
  "0 \<le> c \<Longrightarrow> Do_retry p rt h tenantID previous c (r, es) = (r', es') \<Longrightarrow>
     \<exists>h'. fst (pollTenantAndCreateIndex p rt h' tenantID previous) = r'"
proof (induction p rt h tenantID previous c "(r, es)" arbitrary: r es rule: Do_retry.induct)
  case (1 p rt h tenantID previous c r es)
  obtain a es0 where pt: "pollTenantAndCreateIndex p rt (h @ es) tenantID previous = (a, es0)"
    by (cases "pollTenantAndCreateIndex p rt (h @ es) tenantID previous")
  show ?case
  proof (cases a)
    case (Inr polled)
    with "1.prems" pt have "r' = Inr polled" by (simp add: Do_retry.simps)
    with pt Inr show ?thesis by (metis fst_conv)
  next
    case (Inl err)
    with "1.prems" pt
    have rec: "Do_retry p rt h tenantID previous (c - 1) (Inl err, es @ es0) = (r', es')"
      by (simp add: Do_retry.simps)
    show ?thesis
    proof (cases "0 \<le> c - 1")
      case True
      from "1.hyps"[OF "1.prems"(1) pt[symmetric] _ True rec] Inl show ?thesis by simp
    next
      case False
      with rec have "r' = Inl err" by (simp add: Do_retry.simps)
      with pt Inl show ?thesis by (metis fst_conv)
    qed
  qed
qed

lemma task_cases:
  "(TolerateConsecutiveErrors (cfg p) < 0 \<and> task p rt h previous tenantID = Inr ([], []))
   \<or> (0 \<le> TolerateConsecutiveErrors (cfg p)
       \<and> (\<exists>h'. task p rt h previous tenantID
                  = fst (pollTenantAndCreateIndex p rt h' tenantID previous)))"
proof (cases "0 \<le> TolerateConsecutiveErrors (cfg p)")
  case True
  obtain r' es' where "Do_retry p rt h tenantID previous (TolerateConsecutiveErrors (cfg p))
                          (Inr ([], []), []) = (r', es')" by (metis prod.collapse)
  with Do_retry_nonneg[OF True this] True show ?thesis by (auto simp: task_def)
next
  case False
  then show ?thesis by (simp add: task_def Do_retry.simps)
qed

lemma task_same:
  assumes u: "unchanging p rt"
    and c: "cleanListing p tenantID"
    and m: "Metas previous tenantID = Metas previous' tenantID"
           "CompactedMetas previous tenantID = CompactedMetas previous' tenantID"
  shows "sameUpToOrder (task p rt h previous tenantID) (task p rt h' previous' tenantID)"
  using task_cases[of p rt h previous tenantID] task_cases[of p rt h' previous' tenantID]
    attempt_same[OF u c m]
  by (auto simp: sameUpToOrder_refl)

lemma task_again:
  assumes u: "unchanging p rt"
    and f: "faithfulReads p tenantID"
    and c: "cleanListing p tenantID"
    and first: "task p rt h previous tenantID = Inr (nb, ncb)"
    and m1: "mset (Metas previous' tenantID) = mset nb"
    and m2: "mset (CompactedMetas previous' tenantID) = mset ncb"
  shows "\<exists>nb2 ncb2. task p rt h' previous' tenantID = Inr (nb2, ncb2)
           \<and> mset nb = mset nb2 \<and> mset ncb = mset ncb2"
proof (cases "0 \<le> TolerateConsecutiveErrors (cfg p)")
  case True
  with task_cases[of p rt h previous tenantID] first obtain h1 where
    a: "fst (pollTenantAndCreateIndex p rt h1 tenantID previous) = Inr (nb, ncb)" by auto
  from True task_cases[of p rt h' previous' tenantID] obtain h2 where
    b: "task p rt h' previous' tenantID = fst (pollTenantAndCreateIndex p rt h2 tenantID previous')"
    by auto
  from attempt_again[OF u f c a m1 m2, of h2] b show ?thesis
    by (simp add: sameUpToOrder_Inr)
next
  case False
  with task_cases[of p rt h previous tenantID] task_cases[of p rt h' previous' tenantID] first
  show ?thesis by auto
qed

lemma Do_func_task:
  "Do_func p rt h previous tenantID s =
     (case task p rt (h @ emitted s) previous tenantID of
        Inl err \<Rightarrow>
          s\<lparr>blocklist := (blocklist s)(tenantID \<mapsto> Metas previous tenantID),
            compactedBlocklist := (compactedBlocklist s)(tenantID \<mapsto> CompactedMetas previous tenantID),
            tenantFailuresRemaining := int32 (tenantFailuresRemaining s - 1),
            emitted := emitted (Do_func p rt h previous tenantID s)\<rparr>
      | Inr (newBlockList, newCompactedBlockList) \<Rightarrow>
          if newBlockList \<noteq> [] \<or> newCompactedBlockList \<noteq> []
          then s\<lparr>blocklist := (blocklist s)(tenantID \<mapsto> newBlockList),
                 compactedBlocklist := (compactedBlocklist s)(tenantID \<mapsto> newCompactedBlockList),
                 emitted := emitted (Do_func p rt h previous tenantID s)\<rparr>
          else s\<lparr>emitted := emitted (Do_func p rt h previous tenantID s)\<rparr>)"
  by (auto simp: Do_func_def task_def split: prod.splits sum.splits)

definition failing :: "Poller \<Rightarrow> Runtime \<Rightarrow> List \<Rightarrow> string \<Rightarrow> bool" where
  "failing p rt previous tenantID = (\<exists>h err. task p rt h previous tenantID = Inl err)"

definition settled :: "Poller \<Rightarrow> Runtime \<Rightarrow> List \<Rightarrow> do_state \<Rightarrow> string \<Rightarrow> bool" where
  "settled p rt previous s tenantID =
     ((\<exists>h err. task p rt h previous tenantID = Inl err
         \<and> blocklist s tenantID = Some (Metas previous tenantID)
         \<and> compactedBlocklist s tenantID = Some (CompactedMetas previous tenantID))
    \<or> (\<exists>h nb ncb. task p rt h previous tenantID = Inr (nb, ncb) \<and> (nb \<noteq> [] \<or> ncb \<noteq> [])
         \<and> blocklist s tenantID = Some nb \<and> compactedBlocklist s tenantID = Some ncb)
    \<or> (\<exists>h. task p rt h previous tenantID = Inr ([], [])
         \<and> blocklist s tenantID = None \<and> compactedBlocklist s tenantID = None))"

definition related :: "do_state \<Rightarrow> do_state \<Rightarrow> string \<Rightarrow> bool" where
  "related s1 s2 tenantID =
     (rel_option (\<lambda>xs ys. mset xs = mset ys) (blocklist s1 tenantID) (blocklist s2 tenantID)
    \<and> rel_option (\<lambda>xs ys. mset xs = mset ys)
         (compactedBlocklist s1 tenantID) (compactedBlocklist s2 tenantID))"

lemma settled_cong:
  "blocklist s t = blocklist s' t \<Longrightarrow> compactedBlocklist s t = compactedBlocklist s' t \<Longrightarrow>
     settled p rt previous s t = settled p rt previous s' t"
  by (simp add: settled_def)

lemma related_cong:
  "blocklist s t = blocklist s' t \<Longrightarrow> compactedBlocklist s t = compactedBlocklist s' t \<Longrightarrow>
     related s1 s t = related s1 s' t"
  by (simp add: related_def)

lemma not_failing:
  assumes u: "unchanging p rt" and c: "cleanListing p tenantID"
    and t: "task p rt h previous tenantID = Inr polled"
  shows "\<not> failing p rt previous tenantID"
proof
  assume "failing p rt previous tenantID"
  then obtain h' err where "task p rt h' previous tenantID = Inl err"
    by (auto simp: failing_def)
  with task_same[OF u c refl refl, of h' previous h] t show False
    by (simp add: sameUpToOrder_Inl)
qed

text \<open>What one goroutine does to the maps and to the counter, by the result of its task.\<close>

lemma Do_func_Inl:
  assumes "task p rt (h @ emitted s) previous tenantID = Inl err"
  shows "blocklist (Do_func p rt h previous tenantID s)
           = (blocklist s)(tenantID \<mapsto> Metas previous tenantID)
       \<and> compactedBlocklist (Do_func p rt h previous tenantID s)
           = (compactedBlocklist s)(tenantID \<mapsto> CompactedMetas previous tenantID)
       \<and> tenantFailuresRemaining (Do_func p rt h previous tenantID s)
           = int32 (tenantFailuresRemaining s - 1)"
  using assms by (subst (1 2 3) Do_func_task) simp

lemma Do_func_Inr:
  assumes "task p rt (h @ emitted s) previous tenantID = Inr (nb, ncb)"
  shows "blocklist (Do_func p rt h previous tenantID s)
           = (if nb \<noteq> [] \<or> ncb \<noteq> [] then (blocklist s)(tenantID \<mapsto> nb) else blocklist s)
       \<and> compactedBlocklist (Do_func p rt h previous tenantID s)
           = (if nb \<noteq> [] \<or> ncb \<noteq> [] then (compactedBlocklist s)(tenantID \<mapsto> ncb)
              else compactedBlocklist s)
       \<and> tenantFailuresRemaining (Do_func p rt h previous tenantID s)
           = tenantFailuresRemaining s"
  using assms by (subst (1 2 3) Do_func_task) simp

lemma run_first:
  assumes u: "unchanging p rt" and c: "\<forall>t. cleanListing p t"
  shows "Do_loop p rt h previous ts s = (Completed, s') \<Longrightarrow>
         tenantFailuresRemaining s < 2 ^ 31 \<Longrightarrow>
         (\<forall>t \<in> D. settled p rt previous s t) \<Longrightarrow>
         (\<forall>t. t \<notin> D \<longrightarrow> blocklist s t = None \<and> compactedBlocklist s t = None) \<Longrightarrow>
           (\<forall>t \<in> D \<union> set ts. settled p rt previous s' t)
         \<and> (\<forall>t. t \<notin> D \<union> set ts \<longrightarrow> blocklist s' t = None \<and> compactedBlocklist s' t = None)
         \<and> tenantFailuresRemaining s'
             = tenantFailuresRemaining s - int (length (filter (failing p rt previous) ts))"
proof (induction ts arbitrary: s D)
  case Nil
  then show ?case by simp
next
  case (Cons tenantID ts)
  let ?s2 = "Do_func p rt h previous tenantID s"
  from Cons.prems(1) have adm: "\<not> tenantFailuresRemaining s < 0"
    and rec: "Do_loop p rt h previous ts ?s2 = (Completed, s')"
    by (auto split: option.splits if_splits)
  have cl: "cleanListing p tenantID" using c by simp
  have step: "(\<forall>t \<in> insert tenantID D. settled p rt previous ?s2 t)
      \<and> (\<forall>t. t \<notin> insert tenantID D \<longrightarrow> blocklist ?s2 t = None \<and> compactedBlocklist ?s2 t = None)
      \<and> tenantFailuresRemaining ?s2
          = tenantFailuresRemaining s - (if failing p rt previous tenantID then 1 else 0)
      \<and> tenantFailuresRemaining ?s2 < 2 ^ 31"
  proof (cases "task p rt (h @ emitted s) previous tenantID")
    case (Inl err)
    note e = Do_func_Inl[OF Inl]
    have fl: "failing p rt previous tenantID" using Inl by (auto simp: failing_def)
    have st: "settled p rt previous ?s2 tenantID"
      using Inl e by (auto simp: settled_def)
    have oth: "settled p rt previous ?s2 t" if "t \<in> D" "t \<noteq> tenantID" for t
      using that Cons.prems(3) e settled_cong[of ?s2 t s] by simp
    have non: "blocklist ?s2 t = None \<and> compactedBlocklist ?s2 t = None"
      if "t \<notin> insert tenantID D" for t
      using that Cons.prems(4) e by simp
    from e adm Cons.prems(2) have cnt: "tenantFailuresRemaining ?s2 = tenantFailuresRemaining s - 1"
      by (simp add: int32_dec)
    show ?thesis using fl st oth non cnt Cons.prems(2) by auto
  next
    case (Inr polled)
    obtain nb ncb where pl: "polled = (nb, ncb)" by (cases polled)
    note e = Do_func_Inr[OF Inr[unfolded pl]]
    have nf: "\<not> failing p rt previous tenantID" using not_failing[OF u cl Inr] .
    have st: "settled p rt previous ?s2 tenantID"
    proof (cases "nb \<noteq> [] \<or> ncb \<noteq> []")
      case True
      with Inr pl e show ?thesis by (auto simp: settled_def)
    next
      case False
      with e have same: "blocklist ?s2 = blocklist s \<and> compactedBlocklist ?s2 = compactedBlocklist s"
        by simp
      show ?thesis
      proof (cases "tenantID \<in> D")
        case True
        with Cons.prems(3) same settled_cong[of ?s2 tenantID s] show ?thesis by simp
      next
        case nd: False
        with Cons.prems(4) same Inr pl False show ?thesis by (auto simp: settled_def)
      qed
    qed
    have oth: "settled p rt previous ?s2 t" if "t \<in> D" "t \<noteq> tenantID" for t
      using that Cons.prems(3) e settled_cong[of ?s2 t s] by simp
    have non: "blocklist ?s2 t = None \<and> compactedBlocklist ?s2 t = None"
      if "t \<notin> insert tenantID D" for t
      using that Cons.prems(4) e by simp
    show ?thesis using nf st oth non e Cons.prems(2) by auto
  qed
  from Cons.IH[OF rec, of "insert tenantID D"] step
  show ?case by auto
qed

lemma ApplyPollResults_Metas:
  "Metas (ApplyPollResults bl cbl) t = (case bl t of None \<Rightarrow> [] | Some metas \<Rightarrow> metas)
   \<and> CompactedMetas (ApplyPollResults bl cbl) t = (case cbl t of None \<Rightarrow> [] | Some metas \<Rightarrow> metas)"
  by (simp add: ApplyPollResults_def)

lemma run_second:
  assumes u: "unchanging p rt" and f: "\<forall>t. faithfulReads p t" and c: "\<forall>t. cleanListing p t"
    and ctx: "\<forall>h. ctxErr rt h = None"
    and P1: "P1 = ApplyPollResults (blocklist s1) (compactedBlocklist s1)"
  shows "(\<forall>t \<in> set ts. settled p rt previous s1 t) \<Longrightarrow>
         0 \<le> tenantFailuresRemaining s - int (length (filter (failing p rt previous) ts)) \<Longrightarrow>
         tenantFailuresRemaining s < 2 ^ 31 \<Longrightarrow>
         (\<forall>t \<in> D. related s1 s t) \<Longrightarrow>
         (\<forall>t. t \<notin> D \<longrightarrow> blocklist s t = None \<and> compactedBlocklist s t = None) \<Longrightarrow>
         \<exists>s'. Do_loop p rt h' P1 ts s = (Completed, s')
           \<and> (\<forall>t \<in> D \<union> set ts. related s1 s' t)
           \<and> (\<forall>t. t \<notin> D \<union> set ts \<longrightarrow> blocklist s' t = None \<and> compactedBlocklist s' t = None)
           \<and> tenantFailuresRemaining s'
               = tenantFailuresRemaining s - int (length (filter (failing p rt previous) ts))"
proof (induction ts arbitrary: s D)
  case Nil
  then show ?case by simp
next
  case (Cons tenantID ts)
  let ?s2 = "Do_func p rt h' P1 tenantID s"
  let ?t2 = "task p rt (h' @ emitted s) P1 tenantID"
  have cl: "cleanListing p tenantID" and fr: "faithfulReads p tenantID" using c f by simp_all
  from Cons.prems(2) have adm: "\<not> tenantFailuresRemaining s < 0"
    by (simp split: if_splits)
  from Cons.prems(1) have st1: "settled p rt previous s1 tenantID" by simp
  have step: "(\<forall>t \<in> insert tenantID D. related s1 ?s2 t)
      \<and> (\<forall>t. t \<notin> insert tenantID D \<longrightarrow> blocklist ?s2 t = None \<and> compactedBlocklist ?s2 t = None)
      \<and> tenantFailuresRemaining ?s2
          = tenantFailuresRemaining s - (if failing p rt previous tenantID then 1 else 0)
      \<and> tenantFailuresRemaining ?s2 < 2 ^ 31"
  proof -
    from st1 consider
      (failed) h1 err where "task p rt h1 previous tenantID = Inl err"
        "blocklist s1 tenantID = Some (Metas previous tenantID)"
        "compactedBlocklist s1 tenantID = Some (CompactedMetas previous tenantID)"
    | (polled) h1 nb ncb where "task p rt h1 previous tenantID = Inr (nb, ncb)"
        "nb \<noteq> [] \<or> ncb \<noteq> []"
        "blocklist s1 tenantID = Some nb" "compactedBlocklist s1 tenantID = Some ncb"
    | (empty) h1 where "task p rt h1 previous tenantID = Inr ([], [])"
        "blocklist s1 tenantID = None" "compactedBlocklist s1 tenantID = None"
      unfolding settled_def by blast
    then show ?thesis
    proof cases
      case failed
      have m: "Metas previous tenantID = Metas P1 tenantID"
        "CompactedMetas previous tenantID = CompactedMetas P1 tenantID"
        using failed(2,3) by (simp_all add: P1 ApplyPollResults_Metas)
      from task_same[OF u cl m, of h1 "h' @ emitted s"] failed(1)
      obtain err' where t2: "?t2 = Inl err'" by (auto simp: sameUpToOrder_Inl)
      note e = Do_func_Inl[OF t2]
      have fl: "failing p rt previous tenantID" using failed(1) by (auto simp: failing_def)
      have rl: "related s1 ?s2 tenantID"
        using e failed(2,3) m by (simp add: related_def)
      have oth: "related s1 ?s2 t" if "t \<in> D" "t \<noteq> tenantID" for t
        using that Cons.prems(4) e related_cong[of ?s2 t s] by simp
      have non: "blocklist ?s2 t = None \<and> compactedBlocklist ?s2 t = None"
        if "t \<notin> insert tenantID D" for t
        using that Cons.prems(5) e by simp
      from e adm Cons.prems(3)
      have cnt: "tenantFailuresRemaining ?s2 = tenantFailuresRemaining s - 1"
        by (simp add: int32_dec)
      show ?thesis using fl rl oth non cnt Cons.prems(3) by auto
    next
      case polled
      have m: "mset (Metas P1 tenantID) = mset nb" "mset (CompactedMetas P1 tenantID) = mset ncb"
        using polled(3,4) by (simp_all add: P1 ApplyPollResults_Metas)
      from task_again[OF u fr cl polled(1) m, of "h' @ emitted s"]
      obtain nb2 ncb2 where t2: "?t2 = Inr (nb2, ncb2)"
        and ms: "mset nb = mset nb2" "mset ncb = mset ncb2" by blast
      from ms polled(2) have ne: "nb2 \<noteq> [] \<or> ncb2 \<noteq> []" by (metis mset_zero_iff)
      note e = Do_func_Inr[OF t2]
      have nf: "\<not> failing p rt previous tenantID" using not_failing[OF u cl polled(1)] .
      have rl: "related s1 ?s2 tenantID"
        using e ne polled(3,4) ms by (simp add: related_def)
      have oth: "related s1 ?s2 t" if "t \<in> D" "t \<noteq> tenantID" for t
        using that Cons.prems(4) e related_cong[of ?s2 t s] by simp
      have non: "blocklist ?s2 t = None \<and> compactedBlocklist ?s2 t = None"
        if "t \<notin> insert tenantID D" for t
        using that Cons.prems(5) e by simp
      show ?thesis using nf rl oth non e Cons.prems(3) by auto
    next
      case empty
      have m: "mset (Metas P1 tenantID) = mset ([] :: BlockMeta list)"
        "mset (CompactedMetas P1 tenantID) = mset ([] :: CompactedBlockMeta list)"
        using empty(2,3) by (simp_all add: P1 ApplyPollResults_Metas)
      from task_again[OF u fr cl empty(1) m, of "h' @ emitted s"]
      have t2: "?t2 = Inr ([], [])" by auto
      note e = Do_func_Inr[OF t2]
      have same: "blocklist ?s2 = blocklist s \<and> compactedBlocklist ?s2 = compactedBlocklist s"
        using e by simp
      have nf: "\<not> failing p rt previous tenantID" using not_failing[OF u cl empty(1)] .
      have rl: "related s1 ?s2 tenantID"
      proof (cases "tenantID \<in> D")
        case True
        with Cons.prems(4) same related_cong[of ?s2 tenantID s] show ?thesis by simp
      next
        case False
        with Cons.prems(5) same empty(2,3) show ?thesis by (simp add: related_def)
      qed
      have oth: "related s1 ?s2 t" if "t \<in> D" "t \<noteq> tenantID" for t
        using that Cons.prems(4) same related_cong[of ?s2 t s] by simp
      have non: "blocklist ?s2 t = None \<and> compactedBlocklist ?s2 t = None"
        if "t \<notin> insert tenantID D" for t
        using that Cons.prems(5) same by simp
      show ?thesis using nf rl oth non e Cons.prems(3) by auto
    qed
  qed
  have pre1: "\<forall>t \<in> set ts. settled p rt previous s1 t" using Cons.prems(1) by simp
  have pre2: "0 \<le> tenantFailuresRemaining ?s2 - int (length (filter (failing p rt previous) ts))"
    using step Cons.prems(2) by (simp split: if_splits)
  from step have pre3: "tenantFailuresRemaining ?s2 < 2 ^ 31"
    and pre4: "\<forall>t \<in> insert tenantID D. related s1 ?s2 t"
    and pre5: "\<forall>t. t \<notin> insert tenantID D \<longrightarrow> blocklist ?s2 t = None \<and> compactedBlocklist ?s2 t = None"
    by simp_all
  from Cons.IH[OF pre1 pre2 pre3 pre4 pre5] obtain s' where
    l: "Do_loop p rt h' P1 ts ?s2 = (Completed, s')"
    and r: "\<forall>t \<in> insert tenantID D \<union> set ts. related s1 s' t"
    and n: "\<forall>t. t \<notin> insert tenantID D \<union> set ts \<longrightarrow> blocklist s' t = None \<and> compactedBlocklist s' t = None"
    and k: "tenantFailuresRemaining s'
              = tenantFailuresRemaining ?s2 - int (length (filter (failing p rt previous) ts))"
    by blast
  have "Do_loop p rt h' P1 (tenantID # ts) s = (Completed, s')"
    using l adm ctx by simp
  moreover have "tenantFailuresRemaining s'
      = tenantFailuresRemaining s - int (length (filter (failing p rt previous) (tenantID # ts)))"
    using k step by simp
  ultimately show ?case using r n by auto
qed

lemma unchanging_exPoller: "unchanging exPoller exRuntime"
  by (simp add: unchanging_def ex_defs)

lemma faithfulReads_exPoller: "faithfulReads exPoller t"
  by (auto simp: faithfulReads_def ex_defs split: if_splits)

lemma cleanListing_exPoller: "cleanListing exPoller t"
  by (auto simp: cleanListing_def ex_defs split: if_splits)

text \<open>
  Claim C5, as stated, asks for the same order. The first run carries block 2 forward and
  appends the newly polled block 1; the second run knows both and takes them in the order
  of the listing. The store has not changed, the two live lists of \<open>t1\<close> differ.
\<close>

theorem successive_runs_agree_up_to_order_counterexample:
  "unchanging orderPoller exRuntime
   \<and> fst (Do orderPoller exRuntime [] orderPrevious)
       = Inr ([''t1'' \<mapsto> [metaOf 2, metaOf 1]], [''t1'' \<mapsto> []])
   \<and> fst (Do orderPoller exRuntime (snd (Do orderPoller exRuntime [] orderPrevious))
            (ApplyPollResults [''t1'' \<mapsto> [metaOf 2, metaOf 1]] [''t1'' \<mapsto> []]))
       = Inr ([''t1'' \<mapsto> [metaOf 1, metaOf 2]], [''t1'' \<mapsto> []])
   \<and> [metaOf 2, metaOf 1] \<noteq> [metaOf 1, metaOf 2]"
proof -
  have u: "unchanging orderPoller exRuntime"
    by (simp add: unchanging_def orderPoller_def ex_defs)
  have d: "fst (Do orderPoller exRuntime [] orderPrevious)
       = Inr ([''t1'' \<mapsto> [metaOf 2, metaOf 1]], [''t1'' \<mapsto> []])"
    by (simp add: orderPoller_def orderPrevious_def model_defs ex_defs)
  have es: "snd (Do orderPoller exRuntime [] orderPrevious)
       = [CallTenants, CallBlocks ''t1'', CallBlockMeta 1 ''t1'',
          Logged ''writing tenant index'' [''t1''],
          CallWriteTenantIndex ''t1'' [metaOf 2, metaOf 1] [],
          Logged ''blocklist poll complete'' []]"
    by (simp add: orderPoller_def orderPrevious_def model_defs ex_defs)
  have d2: "fst (Do orderPoller exRuntime (snd (Do orderPoller exRuntime [] orderPrevious))
            (ApplyPollResults [''t1'' \<mapsto> [metaOf 2, metaOf 1]] [''t1'' \<mapsto> []]))
       = Inr ([''t1'' \<mapsto> [metaOf 1, metaOf 2]], [''t1'' \<mapsto> []])"
    unfolding es by (simp add: orderPoller_def ApplyPollResults_def model_defs ex_defs)
  have n: "[metaOf 2, metaOf 1] \<noteq> [metaOf 1, metaOf 2]" by (simp add: metaOf_def)
  from u d d2 n show ?thesis by simp
qed

text \<open>
  Claim C5, amended. Running \<open>Do\<close> twice in succession against an unchanged store (no
  answer of the store, the clock or the context changes; the second run receives the
  output of the first as previous), where \<open>list_blocks\<close> returns no block id twice and
  every meta read carries the block id asked for: when the first run returns its maps,
  so does the second, and for every tenant the live lists of the two runs are equal up
  to the order of their elements, and so are the compacted lists (a tenant without an
  entry in one has none in the other).
\<close>

theorem successive_runs_agree_up_to_order:
  assumes u: "unchanging p rt"
    and f: "\<forall>t. faithfulReads p t"
    and c: "\<forall>t. cleanListing p t"
    and first: "Do p rt h previous = (Inr (bl, cbl), es)"
  shows "\<exists>bl' cbl' es'.
           Do p rt h' (ApplyPollResults bl cbl) = (Inr (bl', cbl'), es')
         \<and> (\<forall>t. rel_option (\<lambda>metas metas'. mset metas = mset metas') (bl t) (bl' t)
               \<and> rel_option (\<lambda>metas metas'. mset metas = mset metas') (cbl t) (cbl' t))"
proof -
  obtain tenants terr where t: "Tenants (reader p) h = (tenants, terr)"
    by (cases "Tenants (reader p) h")
  from first t have terr: "terr = None" by (auto simp: Do_def split: option.splits)
  from u have "Tenants (reader p) h' = Tenants (reader p) []" "Tenants (reader p) h = Tenants (reader p) []"
    unfolding unchanging_def by blast+
  with t terr have t': "Tenants (reader p) h' = (tenants, None)" by simp
  from Do_Inr[OF first t] obtain s1 where
    l1: "Do_loop p rt h previous tenants (Do_init p) = (Completed, s1)"
    and bl: "bl = blocklist s1" and cbl: "cbl = compactedBlocklist s1"
    and nn: "0 \<le> tenantFailuresRemaining s1"
    by blast
  have i0: "tenantFailuresRemaining (Do_init p) < 2 ^ 31"
    "\<forall>t. t \<notin> {} \<longrightarrow> blocklist (Do_init p) t = None \<and> compactedBlocklist (Do_init p) t = None"
    using Do_init_counter[of p] by simp_all
  from run_first[OF u c l1 i0(1) _ i0(2)]
  have a1: "\<forall>t \<in> set tenants. settled p rt previous s1 t"
    and a2: "\<forall>t. t \<notin> set tenants \<longrightarrow> blocklist s1 t = None \<and> compactedBlocklist s1 t = None"
    and a3: "tenantFailuresRemaining s1 = tenantFailuresRemaining (Do_init p)
               - int (length (filter (failing p rt previous) tenants))"
    by simp_all
  show ?thesis
  proof (cases tenants)
    case Nil
    with l1 have "s1 = Do_init p" by simp
    with Nil t' nn bl cbl show ?thesis
      by (simp add: Do_def Do_init_def)
  next
    case (Cons t0 ts0)
    with l1 have "ctxErr rt (h @ emitted (Do_init p)) = None"
      by (auto split: option.splits)
    moreover from u obtain ce where "\<And>h. ctxErr rt h = ce" unfolding unchanging_def by metis
    ultimately have ctx: "\<forall>h. ctxErr rt h = None" by simp
    have b2: "0 \<le> tenantFailuresRemaining (Do_init p)
                  - int (length (filter (failing p rt previous) tenants))"
      using a3 nn by simp
    from run_second[OF u f c ctx refl a1 b2 i0(1) _ i0(2), of h']
    obtain s2 where
      l2: "Do_loop p rt h' (ApplyPollResults (blocklist s1) (compactedBlocklist s1)) tenants (Do_init p)
             = (Completed, s2)"
      and r: "\<forall>t \<in> set tenants. related s1 s2 t"
      and n: "\<forall>t. t \<notin> set tenants \<longrightarrow> blocklist s2 t = None \<and> compactedBlocklist s2 t = None"
      and k: "tenantFailuresRemaining s2 = tenantFailuresRemaining (Do_init p)
               - int (length (filter (failing p rt previous) tenants))"
      by auto
    have rel: "related s1 s2 t" for t
    proof (cases "t \<in> set tenants")
      case True
      with r show ?thesis by simp
    next
      case False
      with a2 n show ?thesis by (simp add: related_def)
    qed
    have "Do p rt h' (ApplyPollResults bl cbl)
            = (Inr (blocklist s2, compactedBlocklist s2),
               emitted s2 @ [Logged ''blocklist poll complete'' []])"
      using t' l2 k a3 nn bl cbl by (simp add: Do_def)
    with rel bl cbl show ?thesis by (auto simp: related_def)
  qed
qed

theorem successive_runs_agree_up_to_order_witness:
  "unchanging exPoller exRuntime
   \<and> faithfulReads exPoller ''t1'' \<and> cleanListing exPoller ''t1''
   \<and> fst (Do exPoller exRuntime [] exPrevious)
       = Inr ([''t1'' \<mapsto> [(metaOf 1)\<lparr>TotalObjects := 99\<rparr>], ''t2'' \<mapsto> [metaOf 7]],
              [''t1'' \<mapsto> [compactedMetaOf 3], ''t2'' \<mapsto> []])
   \<and> fst (Do exPoller exRuntime (snd (Do exPoller exRuntime [] exPrevious))
            (ApplyPollResults
               [''t1'' \<mapsto> [(metaOf 1)\<lparr>TotalObjects := 99\<rparr>], ''t2'' \<mapsto> [metaOf 7]]
               [''t1'' \<mapsto> [compactedMetaOf 3], ''t2'' \<mapsto> []]))
       = Inr ([''t1'' \<mapsto> [(metaOf 1)\<lparr>TotalObjects := 99\<rparr>], ''t2'' \<mapsto> [metaOf 7]],
              [''t1'' \<mapsto> [compactedMetaOf 3], ''t2'' \<mapsto> []])
   \<and> (\<exists>bl' cbl' es'.
         Do exPoller exRuntime (snd (Do exPoller exRuntime [] exPrevious))
            (ApplyPollResults
               [''t1'' \<mapsto> [(metaOf 1)\<lparr>TotalObjects := 99\<rparr>], ''t2'' \<mapsto> [metaOf 7]]
               [''t1'' \<mapsto> [compactedMetaOf 3], ''t2'' \<mapsto> []])
           = (Inr (bl', cbl'), es')
       \<and> (\<forall>t. rel_option (\<lambda>metas metas'. mset metas = mset metas')
                  ([''t1'' \<mapsto> [(metaOf 1)\<lparr>TotalObjects := 99\<rparr>], ''t2'' \<mapsto> [metaOf 7]] t) (bl' t)
              \<and> rel_option (\<lambda>metas metas'. mset metas = mset metas')
                  ([''t1'' \<mapsto> [compactedMetaOf 3], ''t2'' \<mapsto> []] t) (cbl' t)))"
proof -
  let ?bl = "[''t1'' \<mapsto> [(metaOf 1)\<lparr>TotalObjects := 99\<rparr>], ''t2'' \<mapsto> [metaOf 7]]"
  let ?cbl = "[''t1'' \<mapsto> [compactedMetaOf 3], ''t2'' \<mapsto> ([] :: CompactedBlockMeta list)]"
  let ?es = "snd (Do exPoller exRuntime [] exPrevious)"
  have d: "fst (Do exPoller exRuntime [] exPrevious) = Inr (?bl, ?cbl)"
    by (simp add: model_defs ex_defs)
  then have first: "Do exPoller exRuntime [] exPrevious = (Inr (?bl, ?cbl), ?es)"
    by (metis prod.collapse)
  have f: "\<forall>t. faithfulReads exPoller t" using faithfulReads_exPoller by simp
  have c: "\<forall>t. cleanListing exPoller t" using cleanListing_exPoller by simp
  have es: "?es = [CallTenants, CallBlocks ''t1'', CallBlockMeta 2 ''t1'',
     CallCompactedBlockMeta 2 ''t1'', CallCompactedBlockMeta 3 ''t1'',
     Logged ''writing tenant index'' [''t1''],
     CallWriteTenantIndex ''t1'' [(metaOf 1)\<lparr>TotalObjects := 99\<rparr>] [compactedMetaOf 3],
     CallBlocks ''t2'', CallBlocks ''t2'',
     Logged ''failed to poll or create index for tenant'' [''t2''],
     CallBlocks ''t3'', Logged ''writing tenant index'' [''t3''],
     CallWriteTenantIndex ''t3'' [] [], Logged ''blocklist poll complete'' []]"
    by (simp add: model_defs ex_defs)
  have d2: "fst (Do exPoller exRuntime ?es (ApplyPollResults ?bl ?cbl)) = Inr (?bl, ?cbl)"
    unfolding es by (simp add: model_defs ex_defs ApplyPollResults_def)
  from successive_runs_agree_up_to_order[OF unchanging_exPoller f c first, of ?es]
  have "\<exists>bl' cbl' es'.
         Do exPoller exRuntime ?es (ApplyPollResults ?bl ?cbl) = (Inr (bl', cbl'), es')
       \<and> (\<forall>t. rel_option (\<lambda>metas metas'. mset metas = mset metas') (?bl t) (bl' t)
              \<and> rel_option (\<lambda>metas metas'. mset metas = mset metas') (?cbl t) (cbl' t))" .
  with d d2 unchanging_exPoller faithfulReads_exPoller cleanListing_exPoller
  show ?thesis by simp
qed


end
